theory Spec2Isabelle
  imports Main "HOL-Library.Char_ord" "HOL-Library.List_Lexorder" "HOL-Library.Multiset"
    "HOL-Library.AList"
begin

section \<open>Severity decision (agent\_watch.py)\<close>

text \<open>
  \<^verbatim>\<open>_pick_severity\<close> takes five booleans and two keyword-hit lists, and returns a
  pair of strings. The lists are only tested for truthiness (\<^verbatim>\<open>schema_hits or usage_hits\<close>).
\<close>

type_synonym decision = "string \<times> string"

definition pick_severity ::
  "bool \<Rightarrow> bool \<Rightarrow> bool \<Rightarrow> string list \<Rightarrow> string list \<Rightarrow> bool \<Rightarrow> bool \<Rightarrow> decision" where
  "pick_severity upstream_newer_than_verified installed_newer_than_verified monitoring_failed
      schema_hits usage_hits probe_failed probe_failed_but_upstream_degraded =
    (if monitoring_failed then (''high'', ''prepare_hotfix'')
     else if probe_failed \<and> \<not> probe_failed_but_upstream_degraded then (''high'', ''prepare_hotfix'')
     else if probe_failed \<and> probe_failed_but_upstream_degraded then (''medium'', ''monitor'')
     else if installed_newer_than_verified then (''medium'', ''run_weekly_now'')
     else if \<not> upstream_newer_than_verified \<and> \<not> installed_newer_than_verified
       then (''none'', ''ignore'')
     else if schema_hits \<noteq> [] \<or> usage_hits \<noteq> [] then (''medium'', ''run_weekly_now'')
     else (''low'', ''monitor''))"

text \<open>
  The rule list of the specification (section 4.4), written from its words: seven guarded
  rules in priority order, and the reading "first match wins".
\<close>

definition spec_rules ::
  "bool \<Rightarrow> bool \<Rightarrow> bool \<Rightarrow> bool \<Rightarrow> bool \<Rightarrow> bool \<Rightarrow> (bool \<times> decision) list" where
  "spec_rules monitoring_failed probe_failed probe_failed_but_upstream_degraded
      upstream_newer_than_verified installed_newer_than_verified schema_or_usage_keyword_hits =
    [(monitoring_failed, (''high'', ''prepare_hotfix'')),
     (probe_failed \<and> \<not> probe_failed_but_upstream_degraded, (''high'', ''prepare_hotfix'')),
     (probe_failed \<and> probe_failed_but_upstream_degraded, (''medium'', ''monitor'')),
     (installed_newer_than_verified, (''medium'', ''run_weekly_now'')),
     (\<not> upstream_newer_than_verified \<and> \<not> installed_newer_than_verified, (''none'', ''ignore'')),
     (schema_or_usage_keyword_hits, (''medium'', ''run_weekly_now'')),
     (True, (''low'', ''monitor''))]"

fun first_match :: "(bool \<times> 'a) list \<Rightarrow> 'a option" where
  "first_match [] = None"
| "first_match ((c, r) # rules) = (if c then Some r else first_match rules)"

section \<open>Schema diff (agent\_watch.py)\<close>

text \<open>
  A \<^verbatim>\<open>dict[str, list[str]]\<close> is an association list; Python's dictionaries have one
  entry per key, and \<^verbatim>\<open>d.get(k, default)\<close> reads it. Python's \<^verbatim>\<open>sorted\<close>
  of a set of strings is the strictly increasing list of its elements (code-point order,
  which on byte strings is the lexicographic order of the bytes).
\<close>

type_synonym type_keys = "(string \<times> string list) list"

definition dict_get :: "(string \<times> 'v) list \<Rightarrow> string \<Rightarrow> 'v \<Rightarrow> 'v" where
  "dict_get d k dflt = (case map_of d k of None \<Rightarrow> dflt | Some v \<Rightarrow> v)"

definition dict_keys :: "(string \<times> 'v) list \<Rightarrow> string set" where
  "dict_keys d = set (map fst d)"

definition sorted_of_set :: "string set \<Rightarrow> string list" where
  "sorted_of_set A = sorted_list_of_set A"

record schema_diff_result =
  unknown_types :: "string list"
  missing_types :: "string list"
  unknown_keys :: type_keys
  missing_keys :: type_keys
  unknown_only_is_empty :: bool
  is_empty :: bool

definition schema_diff :: "type_keys \<Rightarrow> type_keys \<Rightarrow> schema_diff_result" where
  "schema_diff observed_type_keys baseline_type_keys =
    (let observed_types = dict_keys observed_type_keys;
         baseline_types = dict_keys baseline_type_keys;
         unknown_types = sorted_of_set (observed_types - baseline_types);
         missing_types = sorted_of_set (baseline_types - observed_types);
         extra = (\<lambda>t. sorted_of_set (set (dict_get observed_type_keys t [])
                                       - set (dict_get baseline_type_keys t [])));
         miss = (\<lambda>t. sorted_of_set (set (dict_get baseline_type_keys t [])
                                      - set (dict_get observed_type_keys t [])));
         all_types = sorted_of_set (observed_types \<union> baseline_types);
         unknown_keys = map (\<lambda>t. (t, extra t)) (filter (\<lambda>t. extra t \<noteq> []) all_types);
         missing_keys = map (\<lambda>t. (t, miss t)) (filter (\<lambda>t. miss t \<noteq> []) all_types)
     in \<lparr> unknown_types = unknown_types,
          missing_types = missing_types,
          unknown_keys = unknown_keys,
          missing_keys = missing_keys,
          unknown_only_is_empty = (unknown_types = [] \<and> unknown_keys = []),
          is_empty = (unknown_types = [] \<and> missing_types = []
                      \<and> unknown_keys = [] \<and> missing_keys = []) \<rparr>)"

text \<open>
  The source has no field called drift: \<^verbatim>\<open>main\<close> reads the verdict as
  \<^verbatim>\<open>schema_matches_baseline = bool(schema_diff.get("unknown_only_is_empty"))\<close>, so the
  drift verdict of a diff is the negation of that field.
\<close>

definition drift :: "schema_diff_result \<Rightarrow> bool" where
  "drift d = (\<not> unknown_only_is_empty d)"

section \<open>The decision of one agent in main (agent\_watch.py)\<close>

text \<open>
  The part of \<^verbatim>\<open>main\<close> that reaches a decision for one agent. The mode is the
  \<^verbatim>\<open>--mode\<close> argument (argparse admits daily and weekly only).
  \<^verbatim>\<open>schema_matches_baseline\<close> starts as \<^verbatim>\<open>None\<close> and is set only when a local
  fingerprint was found and the baseline type keys are a non-empty dictionary.
\<close>

datatype mode = Daily | Weekly

definition schema_matches_baseline :: "type_keys option \<Rightarrow> type_keys \<Rightarrow> bool option" where
  "schema_matches_baseline local_fp_type_keys baseline_type_keys =
    (case local_fp_type_keys of
       None \<Rightarrow> None
     | Some observed \<Rightarrow>
         if baseline_type_keys \<noteq> []
         then Some (unknown_only_is_empty (schema_diff observed baseline_type_keys))
         else None)"

definition final_decision ::
  "mode \<Rightarrow> bool \<Rightarrow> bool \<Rightarrow> bool \<Rightarrow> string list \<Rightarrow> string list \<Rightarrow> bool \<Rightarrow> bool
    \<Rightarrow> bool option \<Rightarrow> decision" where
  "final_decision md upstream_newer_than_verified installed_newer_than_verified
      monitoring_failed schema_hits usage_hits probe_failed probe_failed_but_upstream_degraded
      matches =
    (let (severity, recommendation) =
           pick_severity upstream_newer_than_verified installed_newer_than_verified
             monitoring_failed schema_hits usage_hits probe_failed
             probe_failed_but_upstream_degraded
     in if md = Weekly
           \<and> (severity = ''medium'' \<or> severity = ''low'')
           \<and> installed_newer_than_verified
           \<and> matches = Some True
           \<and> \<not> probe_failed
        then (''low'', ''bump_verified_version'')
        else (severity, recommendation))"

text \<open>The order of the severity levels, for comparing two decisions.\<close>

fun severity_rank :: "string \<Rightarrow> nat" where
  "severity_rank s =
    (if s = ''none'' then 0 else if s = ''low'' then 1 else if s = ''medium'' then 2 else 3)"

section \<open>Balanced-brace extraction (scan\_tool\_formats.py)\<close>

text \<open>
  \<^verbatim>\<open>extract_balanced_braces(text, start)\<close> walks \<^verbatim>\<open>range(start, len(text))\<close>
  with the three variables \<^verbatim>\<open>in_string\<close>, \<^verbatim>\<open>escape\<close> and \<^verbatim>\<open>depth\<close>, and returns
  \<^verbatim>\<open>text[start : i + 1]\<close> at the first closing brace that brings the depth to zero,
  or \<^verbatim>\<open>None\<close> when the loop runs out. The start is a Python integer: indexing
  with a negative integer counts from the end and raises \<^verbatim>\<open>IndexError\<close> below
  \<open>- len(text)\<close>, and a slice clamps its bounds. The scanner tells four characters
  apart: the double quote (0x22), the backslash (0x5C) and the two braces.
\<close>

datatype py_error = IndexError

definition py_index :: "string \<Rightarrow> int \<Rightarrow> py_error + char" where
  "py_index text i =
    (let n = int (length text); j = (if i < 0 then n + i else i)
     in if 0 \<le> j \<and> j < n then Inr (text ! nat j) else Inl IndexError)"

definition py_slice :: "string \<Rightarrow> int \<Rightarrow> int \<Rightarrow> string" where
  "py_slice text a b =
    (let n = int (length text);
         lo = (if a < 0 then max 0 (n + a) else min a n);
         hi = (if b < 0 then max 0 (n + b) else min b n)
     in take (nat (hi - lo)) (drop (nat lo) text))"

function scan_braces ::
  "string \<Rightarrow> int \<Rightarrow> int \<Rightarrow> bool \<Rightarrow> bool \<Rightarrow> int \<Rightarrow> py_error + string option" where
  "scan_braces text start i in_string escape depth =
    (if i < int (length text) then
       (case py_index text i of
          Inl e \<Rightarrow> Inl e
        | Inr ch \<Rightarrow>
            if in_string then
              (if escape then scan_braces text start (i + 1) in_string False depth
               else if ch = CHR 0x5C then scan_braces text start (i + 1) in_string True depth
               else if ch = CHR 0x22 then scan_braces text start (i + 1) False escape depth
               else scan_braces text start (i + 1) in_string escape depth)
            else if ch = CHR 0x22 then scan_braces text start (i + 1) True escape depth
            else if ch = CHR ''{'' then scan_braces text start (i + 1) in_string escape (depth + 1)
            else if ch = CHR ''}'' then
              (if depth - 1 = 0 then Inr (Some (py_slice text start (i + 1)))
               else scan_braces text start (i + 1) in_string escape (depth - 1))
            else scan_braces text start (i + 1) in_string escape depth)
     else Inr None)"
  by pat_completeness auto
termination
  by (relation "measure (\<lambda>(text, start, i, in_string, escape, depth). nat (int (length text) - i))")
    auto

declare scan_braces.simps [simp del]

definition extract_balanced_braces :: "string \<Rightarrow> int \<Rightarrow> py_error + string option" where
  "extract_balanced_braces text start = scan_braces text start start False False 0"

text \<open>
  The brace depth in the words of the specification: the characters of a text that lie
  outside string literals (a literal runs from a double quote to the next double quote
  that is not escaped by a backslash; the quotes themselves belong to the literal), and the
  number of opening braces minus the number of closing braces among them. Position
  \<open>i\<close> closes the scan that started at \<open>start\<close> when the depth of
  \<open>text[start..i]\<close> is zero.
\<close>

fun outside_literals :: "bool \<Rightarrow> bool \<Rightarrow> string \<Rightarrow> string" where
  "outside_literals in_string escaped [] = []"
| "outside_literals True True (c # cs) = outside_literals True False cs"
| "outside_literals True False (c # cs) =
    (if c = CHR 0x5C then outside_literals True True cs
     else if c = CHR 0x22 then outside_literals False False cs
     else outside_literals True False cs)"
| "outside_literals False escaped (c # cs) =
    (if c = CHR 0x22 then outside_literals True False cs
     else c # outside_literals False False cs)"

definition brace_depth :: "string \<Rightarrow> int" where
  "brace_depth s =
    int (count_list (outside_literals False False s) CHR ''{'')
    - int (count_list (outside_literals False False s) CHR ''}'')"

definition closes_at :: "string \<Rightarrow> nat \<Rightarrow> nat \<Rightarrow> bool" where
  "closes_at text start i =
    (start \<le> i \<and> i < length text \<and> brace_depth (take (Suc i - start) (drop start text)) = 0)"

text \<open>
  Auxiliary functions for the proofs about the scanner: the loop on the remaining
  characters (the number of characters read up to the return), the update of the three
  variables on one character, and the depth started from any state.
\<close>

fun first_close :: "bool \<Rightarrow> bool \<Rightarrow> int \<Rightarrow> string \<Rightarrow> nat option" where
  "first_close in_string escape depth [] = None"
| "first_close in_string escape depth (ch # cs) =
    (if in_string then
       (if escape then map_option Suc (first_close in_string False depth cs)
        else if ch = CHR 0x5C then map_option Suc (first_close in_string True depth cs)
        else if ch = CHR 0x22 then map_option Suc (first_close False escape depth cs)
        else map_option Suc (first_close in_string escape depth cs))
     else if ch = CHR 0x22 then map_option Suc (first_close True escape depth cs)
     else if ch = CHR ''{'' then map_option Suc (first_close in_string escape (depth + 1) cs)
     else if ch = CHR ''}'' then
       (if depth - 1 = 0 then Some 1
        else map_option Suc (first_close in_string escape (depth - 1) cs))
     else map_option Suc (first_close in_string escape depth cs))"

fun lex_step :: "bool \<Rightarrow> bool \<Rightarrow> int \<Rightarrow> char \<Rightarrow> bool \<times> bool \<times> int" where
  "lex_step in_string escape depth ch =
    (if in_string then
       (if escape then (in_string, False, depth)
        else if ch = CHR 0x5C then (in_string, True, depth)
        else if ch = CHR 0x22 then (False, escape, depth)
        else (in_string, escape, depth))
     else if ch = CHR 0x22 then (True, escape, depth)
     else if ch = CHR ''{'' then (in_string, escape, depth + 1)
     else if ch = CHR ''}'' then (in_string, escape, depth - 1)
     else (in_string, escape, depth))"

definition depth_from :: "bool \<Rightarrow> bool \<Rightarrow> int \<Rightarrow> string \<Rightarrow> int" where
  "depth_from in_string escaped d s =
    d + int (count_list (outside_literals in_string escaped s) CHR ''{'')
      - int (count_list (outside_literals in_string escaped s) CHR ''}'')"

section \<open>Fingerprints (agent\_watch.py)\<close>

text \<open>
  A JSON value as \<^verbatim>\<open>json.loads\<close> returns it; an object is the list of its entries,
  one per key. The fingerprint functions look at the keys of an object and at the value of
  its \<^verbatim>\<open>type\<close> entry only. A line of a JSONL file is blank
  (\<^verbatim>\<open>line.strip()\<close> is empty), malformed (\<^verbatim>\<open>json.loads\<close> raises
  \<^verbatim>\<open>JSONDecodeError\<close>) or parsed to a value.
\<close>

datatype json = JNull | JBool bool | JNum int | JStr string | JArr "json list"
  | JObj "(string \<times> json) list"

datatype raw_line = Blank | Malformed | Parsed json

text \<open>
  The dictionaries \<^verbatim>\<open>type_keys\<close> and \<^verbatim>\<open>type_counts\<close> that the fingerprint
  functions fill, in insertion order, and the counter \<^verbatim>\<open>parse_errors\<close>.
  \<open>add_record\<close> is the local function \<^verbatim>\<open>_add\<close> (written inline in
  \<^verbatim>\<open>_jsonl_schema_fingerprint\<close>).
\<close>

record fp_acc =
  acc_type_keys :: "(string \<times> string set) list"
  acc_type_counts :: "(string \<times> int) list"
  acc_parse_errors :: int

definition empty_acc :: fp_acc where
  "empty_acc = \<lparr> acc_type_keys = [], acc_type_counts = [], acc_parse_errors = 0 \<rparr>"

definition add_record :: "string \<Rightarrow> (string \<times> json) list \<Rightarrow> fp_acc \<Rightarrow> fp_acc" where
  "add_record event_type obj a =
    a \<lparr> acc_type_counts :=
          AList.update event_type (dict_get (acc_type_counts a) event_type 0 + 1)
            (acc_type_counts a),
        acc_type_keys :=
          AList.update event_type
            (dict_get (acc_type_keys a) event_type {} \<union> set (map fst obj))
            (acc_type_keys a) \<rparr>"

definition event_type_of :: "(string \<times> json) list \<Rightarrow> string" where
  "event_type_of obj =
    (case map_of obj ''type'' of
       Some (JStr t) \<Rightarrow> if t \<noteq> [] then t else ''<missing-type>''
     | _ \<Rightarrow> ''<missing-type>'')"

text \<open>
  \<^verbatim>\<open>_jsonl_schema_fingerprint\<close>: the first loop keeps the last
  \<^verbatim>\<open>max_lines\<close> non-blank lines, the second (\<open>fold_lines\<close>, lines 295-318 of the
  source) folds them into the accumulator and returns the dictionaries sorted by key.
\<close>

definition keep_tail :: "int \<Rightarrow> raw_line list \<Rightarrow> raw_line list" where
  "keep_tail max_lines file_lines =
    fold (\<lambda>line lines.
            if line = Blank then lines
            else (let lines' = lines @ [line]
                  in if int (length lines') > max_lines then tl lines' else lines'))
         file_lines []"

fun ingest_line :: "raw_line \<Rightarrow> fp_acc \<times> int \<Rightarrow> fp_acc \<times> int" where
  "ingest_line (Parsed (JObj obj)) (a, total_lines) =
     (add_record (event_type_of obj) obj a, total_lines + 1)"
| "ingest_line (Parsed v) (a, total_lines) = (a, total_lines + 1)"
| "ingest_line raw (a, total_lines) =
     (a \<lparr> acc_parse_errors := acc_parse_errors a + 1 \<rparr>, total_lines + 1)"

definition sorted_keys :: "(string \<times> 'v) list \<Rightarrow> string list" where
  "sorted_keys d = sort (map fst d)"

record fingerprint =
  "file" :: string
  type_counts :: "(string \<times> int) list"
  type_keys :: type_keys
  parse_errors :: int

record jsonl_fingerprint = fingerprint +
  parsed_lines :: int

definition fold_lines :: "string \<Rightarrow> raw_line list \<Rightarrow> jsonl_fingerprint" where
  "fold_lines path lines =
    (let (a, total_lines) = fold ingest_line lines (empty_acc, 0)
     in \<lparr> file = path,
          type_counts = map (\<lambda>k. (k, the (map_of (acc_type_counts a) k)))
                          (sorted_keys (acc_type_counts a)),
          type_keys = map (\<lambda>k. (k, sorted_of_set (the (map_of (acc_type_keys a) k))))
                        (sorted_keys (acc_type_keys a)),
          parse_errors = acc_parse_errors a,
          parsed_lines = total_lines \<rparr>)"

definition jsonl_schema_fingerprint :: "string \<Rightarrow> raw_line list \<Rightarrow> int \<Rightarrow> jsonl_fingerprint" where
  "jsonl_schema_fingerprint path file_lines max_lines =
     fold_lines path (keep_tail max_lines file_lines)"

text \<open>
  \<^verbatim>\<open>_merge_type_keys\<close>, on the \<^verbatim>\<open>type_keys\<close> entries of well-typed
  fingerprints (every \<^verbatim>\<open>isinstance\<close> check of the source passes).
\<close>

definition merge_type_keys :: "type_keys list \<Rightarrow> type_keys" where
  "merge_type_keys fingerprints =
    (let merged =
       fold (\<lambda>tk merged.
               fold (\<lambda>(t, keys) merged.
                       AList.update t (dict_get merged t {} \<union> set keys) merged)
                    tk merged)
            fingerprints []
     in map (\<lambda>(t, keys). (t, sorted_of_set keys)) (sort_key fst merged))"

text \<open>Auxiliary functions for the proofs about the fingerprint.\<close>

fun line_type :: "raw_line \<Rightarrow> string option" where
  "line_type (Parsed (JObj obj)) = Some (event_type_of obj)"
| "line_type raw = None"

fun line_keys :: "raw_line \<Rightarrow> string set" where
  "line_keys (Parsed (JObj obj)) = set (map fst obj)"
| "line_keys raw = {}"

fun line_fails :: "raw_line \<Rightarrow> bool" where
  "line_fails (Parsed v) = False"
| "line_fails raw = True"

definition count_fold :: "string list \<Rightarrow> (string \<times> int) list \<Rightarrow> (string \<times> int) list" where
  "count_fold ts d = fold (\<lambda>t d. AList.update t (dict_get d t 0 + 1) d) ts d"

definition union_fold ::
  "(string \<times> string set) list \<Rightarrow> (string \<times> string set) list \<Rightarrow> (string \<times> string set) list" where
  "union_fold evs d = fold (\<lambda>(t, ks) d. AList.update t (dict_get d t {} \<union> ks) d) evs d"

definition line_events :: "raw_line list \<Rightarrow> (string \<times> string set) list" where
  "line_events ls = map (\<lambda>l. (the (line_type l), line_keys l)) (filter (\<lambda>l. line_type l \<noteq> None) ls)"

definition type_key_events :: "type_keys \<Rightarrow> (string \<times> string set) list" where
  "type_key_events tk = map (\<lambda>(t, keys). (t, set keys)) tk"

section \<open>Tool-event clustering (scan\_tool\_formats.py)\<close>

text \<open>
  The three dataclasses of the catalog. The field names are those of the source, with a
  prefix per class, since the classes share names.
\<close>

record Example =
  ex_agent_family :: string
  ex_source_file :: string
  ex_event_index :: "int option"
  ex_direction :: string
  ex_tool_name :: "string option"
  ex_shape_signature :: string
  ex_field_path :: "string option"
  ex_raw_event :: string
  ex_raw_payload :: "string option"
  ex_parsed_payload :: json
  ex_parse_error :: "string option"

record GroupStats =
  g_agent_family :: string
  g_tool_name_normalized :: string
  g_shape_signature :: string
  g_direction :: string
  g_count :: int
  g_parse_success :: int
  g_tool_name_variants :: "string set"
  g_fields_seen :: "string set"
  g_field_variants :: "(string \<times> string set) list"
  g_examples :: "Example list"

record ShapeStats =
  s_shape_signature :: string
  s_count :: int
  s_agents :: "string set"
  s_directions :: "(string \<times> int) list"
  s_examples :: "Example list"

type_synonym group_key = "string \<times> string \<times> string \<times> string"
type_synonym groups = "(group_key \<times> GroupStats) list"
type_synonym shapes = "(string \<times> ShapeStats) list"

definition MAX_TEXT_EVENT_LEN :: nat where "MAX_TEXT_EVENT_LEN = 2000"
definition MAX_EXAMPLE_CHARS :: nat where "MAX_EXAMPLE_CHARS = 800"

text \<open>
  What the scan calls for every record: the per-producer extraction of structured tool
  blocks, \<^verbatim>\<open>parse_payload\<close>, \<^verbatim>\<open>text_candidates\<close>,
  \<^verbatim>\<open>extract_text_tool_blocks\<close>, \<^verbatim>\<open>infer_direction_from_payload\<close>, and the
  string normalisation \<^verbatim>\<open>normalize_token\<close> (with \<^verbatim>\<open>name.strip().lower()\<close>).
  They are pure functions of their arguments, built on regular expressions and the JSON
  library; the clustering is modelled for arbitrary such functions, which are passed in.
  A structured tool block is the tuple (direction, tool name, payload, shape, fields,
  field path).
\<close>

type_synonym tool_block = "string \<times> string option \<times> json \<times> string \<times> string list \<times> string option"

record extractors =
  normalize_token :: "string \<Rightarrow> string"
  strip_lower :: "string \<Rightarrow> string"
  codex_tool_blocks :: "(string \<times> json) list \<Rightarrow> string \<Rightarrow> tool_block list"
  claude_tool_blocks :: "(string \<times> json) list \<Rightarrow> string \<Rightarrow> tool_block list"
  copilot_tool_blocks :: "(string \<times> json) list \<Rightarrow> string \<Rightarrow> tool_block list"
  droid_tool_blocks :: "(string \<times> json) list \<Rightarrow> string \<Rightarrow> tool_block list"
  parse_payload :: "json \<Rightarrow> string option \<times> json \<times> string option \<times> string list"
  text_candidates :: "(string \<times> json) list \<Rightarrow> (string \<times> string) list"
  extract_text_tool_blocks :: "string \<Rightarrow> string \<Rightarrow> (string \<times> string \<times> string) list"
  infer_direction_from_payload :: "json \<Rightarrow> string"

definition normalize_tool_name :: "extractors \<Rightarrow> string option \<Rightarrow> string" where
  "normalize_tool_name lib name =
    (case name of
       None \<Rightarrow> ''unknown''
     | Some n \<Rightarrow>
         if n = [] then ''unknown''
         else (let norm = normalize_token lib n in if norm \<noteq> [] then norm else ''unknown''))"

definition normalize_field_name :: "extractors \<Rightarrow> string \<Rightarrow> string" where
  "normalize_field_name lib name =
    (let norm = normalize_token lib name in if norm \<noteq> [] then norm else strip_lower lib name)"

definition example_is_too_large :: "Example \<Rightarrow> bool" where
  "example_is_too_large example =
    (if length (ex_raw_event example) > MAX_EXAMPLE_CHARS then True
     else (case ex_raw_payload example of
             Some p \<Rightarrow> length p > MAX_EXAMPLE_CHARS
           | None \<Rightarrow> False))"

definition add_group_example :: "GroupStats \<Rightarrow> Example \<Rightarrow> int \<Rightarrow> GroupStats" where
  "add_group_example grp example max_examples =
    (if int (length (g_examples grp)) \<ge> max_examples then grp
     else if example_is_too_large example then grp
     else grp \<lparr> g_examples := g_examples grp @ [example] \<rparr>)"

definition add_shape_example :: "ShapeStats \<Rightarrow> Example \<Rightarrow> int \<Rightarrow> ShapeStats" where
  "add_shape_example shape example max_examples =
    (if int (length (s_examples shape)) \<ge> max_examples then shape
     else if example_is_too_large example then shape
     else shape \<lparr> s_examples := s_examples shape @ [example] \<rparr>)"

definition record_fields :: "extractors \<Rightarrow> GroupStats \<Rightarrow> string list \<Rightarrow> GroupStats" where
  "record_fields lib grp field_names =
    fold (\<lambda>field_name grp.
            if field_name = [] then grp
            else (let norm = normalize_field_name lib field_name
                  in grp \<lparr> g_fields_seen := insert norm (g_fields_seen grp),
                             g_field_variants :=
                               AList.update norm
                                 (insert field_name (dict_get (g_field_variants grp) norm {}))
                                 (g_field_variants grp) \<rparr>))
         field_names grp"

text \<open>
  The arguments of one call of \<^verbatim>\<open>add_tool_block\<close> (the two dictionaries and the
  two bounds apart), and the call itself on the pair of dictionaries \<^verbatim>\<open>groups\<close> and
  \<^verbatim>\<open>shapes\<close>.
\<close>

record tool_block_args =
  agent :: string
  tool_name :: "string option"
  direction :: string
  shape_signature :: string
  raw_event :: string
  raw_payload :: "string option"
  parsed_payload :: json
  parse_error :: "string option"
  field_path :: "string option"
  field_names :: "string list"
  source_file :: string
  event_index :: "int option"

definition add_tool_block ::
  "extractors \<Rightarrow> int \<Rightarrow> int \<Rightarrow> tool_block_args \<Rightarrow> groups \<times> shapes \<Rightarrow> groups \<times> shapes" where
  "add_tool_block lib max_examples_per_group max_examples_per_shape b =
    (\<lambda>(groups, shapes).
      let tool_norm = normalize_tool_name lib (tool_name b);
          key = (agent b, tool_norm, shape_signature b, direction b);
          group0 = (case map_of groups key of
                     None \<Rightarrow> \<lparr> g_agent_family = agent b, g_tool_name_normalized = tool_norm,
                               g_shape_signature = shape_signature b, g_direction = direction b,
                               g_count = 0, g_parse_success = 0, g_tool_name_variants = {},
                               g_fields_seen = {}, g_field_variants = [], g_examples = [] \<rparr>
                   | Some g \<Rightarrow> g);
          group1 = group0 \<lparr> g_count := g_count group0 + 1 \<rparr>;
          group2 = (if parsed_payload b \<noteq> JNull
                    then group1 \<lparr> g_parse_success := g_parse_success group1 + 1 \<rparr> else group1);
          group3 = (case tool_name b of
                      None \<Rightarrow> group2
                    | Some n \<Rightarrow> if n = [] then group2
                        else group2 \<lparr> g_tool_name_variants := insert n (g_tool_name_variants group2) \<rparr>);
          group4 = record_fields lib group3 (field_names b);
          example = \<lparr> ex_agent_family = agent b, ex_source_file = source_file b,
                      ex_event_index = event_index b, ex_direction = direction b,
                      ex_tool_name = tool_name b, ex_shape_signature = shape_signature b,
                      ex_field_path = field_path b, ex_raw_event = raw_event b,
                      ex_raw_payload = raw_payload b, ex_parsed_payload = parsed_payload b,
                      ex_parse_error = parse_error b \<rparr>;
          group5 = add_group_example group4 example max_examples_per_group;
          shape0 = (case map_of shapes (shape_signature b) of
                      None \<Rightarrow> \<lparr> s_shape_signature = shape_signature b, s_count = 0, s_agents = {},
                                s_directions = [], s_examples = [] \<rparr>
                    | Some s \<Rightarrow> s);
          shape1 = shape0 \<lparr> s_count := s_count shape0 + 1,
                            s_agents := insert (agent b) (s_agents shape0),
                            s_directions := AList.update (direction b)
                               (dict_get (s_directions shape0) (direction b) 0 + 1)
                               (s_directions shape0) \<rparr>;
          shape2 = add_shape_example shape1 example max_examples_per_shape
      in (AList.update key group5 groups, AList.update (shape_signature b) shape2 shapes))"

text \<open>
  \<^verbatim>\<open>scan_jsonl_file\<close>: a file is its agent, its path and the records
  (index, object, raw line) that \<^verbatim>\<open>iter_jsonl_with_raw\<close> yields; \<open>scan_files\<close> is
  the loop of \<^verbatim>\<open>main\<close> over the files, from empty dictionaries.
\<close>

type_synonym jsonl_record = "int \<times> (string \<times> json) list \<times> string"

record jsonl_file =
  file_agent :: string
  file_path :: string
  file_records :: "jsonl_record list"

definition scan_record ::
  "extractors \<Rightarrow> int \<Rightarrow> int \<Rightarrow> string \<Rightarrow> string \<Rightarrow> jsonl_record
    \<Rightarrow> groups \<times> shapes \<Rightarrow> groups \<times> shapes" where
  "scan_record lib max_examples_per_group max_examples_per_shape agt path =
    (\<lambda>(idx, obj, raw) cat.
      let blocks = (if agt = ''codex'' then codex_tool_blocks lib obj raw
                    else if agt = ''claude'' then claude_tool_blocks lib obj raw
                    else if agt = ''copilot'' then copilot_tool_blocks lib obj raw
                    else if agt = ''droid'' then droid_tool_blocks lib obj raw
                    else []);
          cat1 =
            fold (\<lambda>(dir, name, payload, shape, flds, fpath) cat.
                    let (rawp, parsed, perr, payload_fields) = parse_payload lib payload;
                        use_fields = (if flds \<noteq> [] then flds else payload_fields)
                    in add_tool_block lib max_examples_per_group max_examples_per_shape
                         \<lparr> agent = agt, tool_name = name, direction = dir,
                           shape_signature = shape, raw_event = raw, raw_payload = rawp,
                           parsed_payload = parsed, parse_error = perr, field_path = fpath,
                           field_names = use_fields, source_file = path, event_index = Some idx \<rparr>
                         cat)
                 blocks cat
      in fold (\<lambda>(fpath, text) cat.
                 if length text > MAX_TEXT_EVENT_LEN then cat
                 else fold (\<lambda>(name, raw_json, shape) cat.
                              let (rawp, parsed, perr, payload_fields) =
                                    parse_payload lib (JStr raw_json);
                                  dir = infer_direction_from_payload lib parsed
                              in add_tool_block lib max_examples_per_group max_examples_per_shape
                                   \<lparr> agent = agt, tool_name = Some name, direction = dir,
                                     shape_signature = shape, raw_event = text,
                                     raw_payload = rawp, parsed_payload = parsed,
                                     parse_error = perr, field_path = Some fpath,
                                     field_names = payload_fields, source_file = path,
                                     event_index = Some idx \<rparr>
                                   cat)
                           (extract_text_tool_blocks lib text fpath) cat)
              (text_candidates lib obj) cat1)"

definition scan_jsonl_file ::
  "extractors \<Rightarrow> int \<Rightarrow> int \<Rightarrow> jsonl_file \<Rightarrow> groups \<times> shapes \<Rightarrow> groups \<times> shapes" where
  "scan_jsonl_file lib max_examples_per_group max_examples_per_shape f cat =
    fold (scan_record lib max_examples_per_group max_examples_per_shape (file_agent f) (file_path f))
      (file_records f) cat"

definition scan_files ::
  "extractors \<Rightarrow> int \<Rightarrow> int \<Rightarrow> jsonl_file list \<Rightarrow> groups \<times> shapes" where
  "scan_files lib max_examples_per_group max_examples_per_shape files =
    fold (scan_jsonl_file lib max_examples_per_group max_examples_per_shape) files ([], [])"

text \<open>The keys of the groups of a catalog, and the count of the group of a key.\<close>

definition group_keys :: "groups \<times> shapes \<Rightarrow> group_key set" where
  "group_keys cat = fst ` set (fst cat)"

definition group_count :: "groups \<times> shapes \<Rightarrow> group_key \<Rightarrow> int" where
  "group_count cat key = (case map_of (fst cat) key of None \<Rightarrow> 0 | Some g \<Rightarrow> g_count g)"

text \<open>
  Auxiliary functions for the proofs about the clustering: the key under which a call of
  \<open>add_tool_block\<close> is grouped, and the calls that one record, one file and a list of
  files give rise to, in the order of the scan.
\<close>

definition block_key :: "extractors \<Rightarrow> tool_block_args \<Rightarrow> group_key" where
  "block_key lib b =
    (agent b, normalize_tool_name lib (tool_name b), shape_signature b, direction b)"

definition record_calls ::
  "extractors \<Rightarrow> string \<Rightarrow> string \<Rightarrow> jsonl_record \<Rightarrow> tool_block_args list" where
  "record_calls lib agt path =
    (\<lambda>(idx, obj, raw).
      map (\<lambda>(dir, name, payload, shape, flds, fpath).
             let (rawp, parsed, perr, payload_fields) = parse_payload lib payload;
                 use_fields = (if flds \<noteq> [] then flds else payload_fields)
             in \<lparr> agent = agt, tool_name = name, direction = dir,
                  shape_signature = shape, raw_event = raw, raw_payload = rawp,
                  parsed_payload = parsed, parse_error = perr, field_path = fpath,
                  field_names = use_fields, source_file = path, event_index = Some idx \<rparr>)
          (if agt = ''codex'' then codex_tool_blocks lib obj raw
           else if agt = ''claude'' then claude_tool_blocks lib obj raw
           else if agt = ''copilot'' then copilot_tool_blocks lib obj raw
           else if agt = ''droid'' then droid_tool_blocks lib obj raw
           else [])
      @ concat (map (\<lambda>(fpath, text).
                  if length text > MAX_TEXT_EVENT_LEN then []
                  else map (\<lambda>(name, raw_json, shape).
                              let (rawp, parsed, perr, payload_fields) =
                                    parse_payload lib (JStr raw_json);
                                  dir = infer_direction_from_payload lib parsed
                              in \<lparr> agent = agt, tool_name = Some name, direction = dir,
                                   shape_signature = shape, raw_event = text,
                                   raw_payload = rawp, parsed_payload = parsed,
                                   parse_error = perr, field_path = Some fpath,
                                   field_names = payload_fields, source_file = path,
                                   event_index = Some idx \<rparr>)
                           (extract_text_tool_blocks lib text fpath))
                (text_candidates lib obj)))"

definition file_calls :: "extractors \<Rightarrow> jsonl_file \<Rightarrow> tool_block_args list" where
  "file_calls lib f = concat (map (record_calls lib (file_agent f) (file_path f)) (file_records f))"

definition all_calls :: "extractors \<Rightarrow> jsonl_file list \<Rightarrow> tool_block_args list" where
  "all_calls lib files = concat (map (file_calls lib) files)"

text \<open>Concrete extraction functions and files, for evaluating the clustering.\<close>

definition example_extractors :: extractors where
  "example_extractors =
    \<lparr> normalize_token = (\<lambda>s. s),
      strip_lower = (\<lambda>s. s),
      codex_tool_blocks = (\<lambda>obj raw.
        [(''input'', Some ''shell'', JNull, ''jsonl:type=tool_call'', map fst obj, Some ''type'')]),
      claude_tool_blocks = (\<lambda>obj raw.
        [(''output'', None, JNull, ''jsonl:toolUseResult'', map fst obj, Some ''toolUseResult'')]),
      copilot_tool_blocks = (\<lambda>obj raw. []),
      droid_tool_blocks = (\<lambda>obj raw. []),
      parse_payload = (\<lambda>payload. (None, payload, None, [])),
      text_candidates = (\<lambda>obj. []),
      extract_text_tool_blocks = (\<lambda>text fpath. []),
      infer_direction_from_payload = (\<lambda>parsed. ''unknown'') \<rparr>"

definition example_files :: "jsonl_file list" where
  "example_files =
    [\<lparr> file_agent = ''codex'', file_path = ''a.jsonl'',
       file_records = [(0, [(''type'', JStr ''tool_call'')], ''{}''),
                       (1, [(''type'', JStr ''tool_call''), (''name'', JStr ''shell'')], ''{}'')] \<rparr>,
     \<lparr> file_agent = ''claude'', file_path = ''b.jsonl'',
       file_records = [(0, [(''toolUseResult'', JObj [])], ''{}'')] \<rparr>]"

section \<open>Fingerprint of a session tree (agent\_watch.py)\<close>

text \<open>
  What the tree fingerprint reads from its environment: the path operations of
  \<^verbatim>\<open>pathlib\<close> (\<^verbatim>\<open>parents\<close>, the operator \<^verbatim>\<open>/\<close>, \<^verbatim>\<open>str\<close>), and
  the file system. \<^verbatim>\<open>Path.exists\<close> may raise \<^verbatim>\<open>OSError\<close>; reading and
  decoding a JSON file is wrapped in \<^verbatim>\<open>try ... except Exception\<close> everywhere, so its
  failure is the value \<open>None\<close>; \<^verbatim>\<open>glob\<close> lists the matches of a pattern in a
  directory. Paths are ordered, for \<^verbatim>\<open>sorted\<close>.
\<close>

datatype os_error = OSError

record 'p filesystem =
  fs_parents :: "'p \<Rightarrow> 'p list"
  fs_child :: "'p \<Rightarrow> string \<Rightarrow> 'p"
  fs_str :: "'p \<Rightarrow> string"
  fs_exists :: "'p \<Rightarrow> os_error + bool"
  fs_read_json :: "'p \<Rightarrow> json option"
  fs_glob :: "'p \<Rightarrow> string \<Rightarrow> 'p list"

text \<open>
  \<^verbatim>\<open>_opencode_storage_root_for_session_file\<close>: the first parent with the three
  directories \<^verbatim>\<open>session\<close>, \<^verbatim>\<open>message\<close> and \<^verbatim>\<open>part\<close>; an
  \<^verbatim>\<open>OSError\<close> of \<^verbatim>\<open>exists\<close> moves on to the next parent.
\<close>

fun storage_root_search :: "'p filesystem \<Rightarrow> 'p list \<Rightarrow> 'p option" where
  "storage_root_search fs [] = None"
| "storage_root_search fs (parent # rest) =
    (case fs_exists fs (fs_child fs parent ''session'') of
       Inr True \<Rightarrow>
         (case fs_exists fs (fs_child fs parent ''message'') of
            Inr True \<Rightarrow>
              (case fs_exists fs (fs_child fs parent ''part'') of
                 Inr True \<Rightarrow> Some parent
               | _ \<Rightarrow> storage_root_search fs rest)
          | _ \<Rightarrow> storage_root_search fs rest)
     | _ \<Rightarrow> storage_root_search fs rest)"

definition opencode_storage_root_for_session_file :: "'p filesystem \<Rightarrow> 'p \<Rightarrow> 'p option" where
  "opencode_storage_root_for_session_file fs session_path =
     storage_root_search fs (fs_parents fs session_path)"

text \<open>
  \<^verbatim>\<open>_opencode_storage_session_tree_schema_fingerprint\<close>. The returned dictionary has
  the key \<^verbatim>\<open>warning\<close> in two of its returns only. The state of the loops is the
  accumulator of the fingerprint with the two counters and the budget of part files.
\<close>

record tree_fingerprint = fingerprint +
  message_files_parsed :: int
  part_files_parsed :: int
  warning :: "string option"

record tree_state =
  st_acc :: fp_acc
  st_message_files_parsed :: int
  st_part_files_parsed :: int
  st_total_parts_budget :: int

definition str_field :: "(string \<times> json) list \<Rightarrow> string \<Rightarrow> string option" where
  "str_field obj k =
    (case map_of obj k of
       Some (JStr v) \<Rightarrow> if v \<noteq> [] then Some v else None
     | _ \<Rightarrow> None)"

definition tagged_type :: "string \<Rightarrow> (string \<times> json) list \<Rightarrow> string \<Rightarrow> string" where
  "tagged_type kind obj k =
    (case str_field obj k of Some v \<Rightarrow> kind @ ''.'' @ v | None \<Rightarrow> kind)"

definition count_parse_error :: "tree_state \<Rightarrow> tree_state" where
  "count_parse_error s =
    s \<lparr> st_acc := (st_acc s) \<lparr> acc_parse_errors := acc_parse_errors (st_acc s) + 1 \<rparr> \<rparr>"

fun scan_parts :: "'p filesystem \<Rightarrow> 'p list \<Rightarrow> tree_state \<Rightarrow> tree_state" where
  "scan_parts fs [] s = s"
| "scan_parts fs (part_file # rest) s =
    (if st_total_parts_budget s \<le> 0 then s
     else
       (case fs_read_json fs part_file of
          None \<Rightarrow>
            scan_parts fs rest
              ((count_parse_error s) \<lparr> st_total_parts_budget := st_total_parts_budget s - 1 \<rparr>)
        | Some (JObj part_obj) \<Rightarrow>
            scan_parts fs rest
              (s \<lparr> st_total_parts_budget := st_total_parts_budget s - 1,
                   st_acc := add_record (tagged_type ''part'' part_obj ''type'') part_obj (st_acc s),
                   st_part_files_parsed := st_part_files_parsed s + 1 \<rparr>)
        | Some other \<Rightarrow>
            scan_parts fs rest (s \<lparr> st_total_parts_budget := st_total_parts_budget s - 1 \<rparr>)))"

fun scan_messages ::
  "('p::linorder) filesystem \<Rightarrow> 'p \<Rightarrow> 'p list \<Rightarrow> tree_state \<Rightarrow> os_error + tree_state" where
  "scan_messages fs storage_root [] s = Inr s"
| "scan_messages fs storage_root (msg_file # rest) s =
    (case fs_read_json fs msg_file of
       None \<Rightarrow> scan_messages fs storage_root rest (count_parse_error s)
     | Some (JObj msg_obj) \<Rightarrow>
         (let s1 = s \<lparr> st_acc := add_record (tagged_type ''message'' msg_obj ''role'') msg_obj
                                     (st_acc s),
                         st_message_files_parsed := st_message_files_parsed s + 1 \<rparr>
          in case str_field msg_obj ''id'' of
               None \<Rightarrow> scan_messages fs storage_root rest s1
             | Some mid \<Rightarrow>
                 (let part_dir = fs_child fs (fs_child fs storage_root ''part'') mid
                  in case fs_exists fs part_dir of
                       Inl e \<Rightarrow> Inl e
                     | Inr False \<Rightarrow> scan_messages fs storage_root rest s1
                     | Inr True \<Rightarrow>
                         if st_total_parts_budget s1 \<le> 0
                         then scan_messages fs storage_root rest s1
                         else scan_messages fs storage_root rest
                                (scan_parts fs (sort (fs_glob fs part_dir ''*.json'')) s1)))
     | Some other \<Rightarrow> scan_messages fs storage_root rest s)"

definition tree_result ::
  "string \<Rightarrow> fp_acc \<Rightarrow> int \<Rightarrow> int \<Rightarrow> string option \<Rightarrow> tree_fingerprint" where
  "tree_result path a messages parts w =
    \<lparr> file = path,
      type_counts = map (\<lambda>k. (k, the (map_of (acc_type_counts a) k)))
                      (sorted_keys (acc_type_counts a)),
      type_keys = map (\<lambda>k. (k, sorted_of_set (the (map_of (acc_type_keys a) k))))
                    (sorted_keys (acc_type_keys a)),
      parse_errors = acc_parse_errors a,
      message_files_parsed = messages,
      part_files_parsed = parts,
      warning = w \<rparr>"

definition opencode_storage_session_tree_schema_fingerprint ::
  "('p::linorder) filesystem \<Rightarrow> 'p \<Rightarrow> int \<Rightarrow> int \<Rightarrow> os_error + tree_fingerprint" where
  "opencode_storage_session_tree_schema_fingerprint fs session_path max_messages max_parts =
    (case fs_read_json fs session_path of
       None \<Rightarrow>
         Inr \<lparr> file = fs_str fs session_path, type_counts = [], type_keys = [],
               parse_errors = 1, message_files_parsed = 0, part_files_parsed = 0,
               warning = None \<rparr>
     | Some session_obj \<Rightarrow>
         (let a = (case session_obj of
                     JObj obj \<Rightarrow> add_record ''session'' obj empty_acc
                   | _ \<Rightarrow> empty_acc);
              session_id = (case session_obj of JObj obj \<Rightarrow> str_field obj ''id'' | _ \<Rightarrow> None)
          in case session_id of
               None \<Rightarrow> Inr (tree_result (fs_str fs session_path) a 0 0 None)
             | Some sid \<Rightarrow>
                 (case opencode_storage_root_for_session_file fs session_path of
                    None \<Rightarrow>
                      Inr (tree_result (fs_str fs session_path) a 0 0
                             (Some ''storage_root_not_found''))
                  | Some storage_root \<Rightarrow>
                      (let msg_dir = fs_child fs (fs_child fs storage_root ''message'') sid
                       in case fs_exists fs msg_dir of
                            Inl e \<Rightarrow> Inl e
                          | Inr False \<Rightarrow>
                              Inr (tree_result (fs_str fs session_path) a 0 0
                                     (Some ''message_dir_not_found''))
                          | Inr True \<Rightarrow>
                              (let total_parts_budget = max 0 max_parts;
                                   msg_budget = max 0 max_messages;
                                   msg_files = take (nat msg_budget)
                                                 (sort (fs_glob fs msg_dir ''msg_*.json''))
                               in case scan_messages fs storage_root msg_files
                                         \<lparr> st_acc = a, st_message_files_parsed = 0,
                                           st_part_files_parsed = 0,
                                           st_total_parts_budget = total_parts_budget \<rparr> of
                                    Inl e \<Rightarrow> Inl e
                                  | Inr s \<Rightarrow>
                                      Inr (tree_result (fs_str fs session_path) (st_acc s)
                                             (st_message_files_parsed s)
                                             (st_part_files_parsed s) None))))))"

text \<open>A concrete file system, for evaluating the extraction.\<close>

definition example_fs ::
  "string list list \<Rightarrow> (string list \<times> json) list \<Rightarrow> (string list) filesystem" where
  "example_fs dirs files =
    \<lparr> fs_parents = (\<lambda>p. map (\<lambda>n. take n p) (rev [0..<length p])),
      fs_child = (\<lambda>p c. p @ [c]),
      fs_str = (\<lambda>p. concat (map (\<lambda>c. ''/'' @ c) p)),
      fs_exists = (\<lambda>p. Inr (p \<in> set dirs \<or> p \<in> set (map fst files))),
      fs_read_json = (\<lambda>p. map_of files p),
      fs_glob = (\<lambda>p pat. filter (\<lambda>q. butlast q = p \<and> q \<noteq> []) (map fst files)) \<rparr>"

section \<open>Theorems\<close>

subsection \<open>Severity decision\<close>

text \<open>
  C2. The severity decision is a total function: for every combination of its inputs it
  yields exactly one (severity, recommendation) pair, that pair is the result of the first
  rule of the specification's ordered list 1-7 whose guard holds, and a failed monitoring
  yields (high, prepare\_hotfix) whatever the other inputs are.
\<close>

theorem pick_severity_first_match:
  "(\<exists>!d. pick_severity up_newer inst_newer mf sh uh pf pd = d)
   \<and> first_match (spec_rules mf pf pd up_newer inst_newer (sh \<noteq> [] \<or> uh \<noteq> []))
       = Some (pick_severity up_newer inst_newer mf sh uh pf pd)
   \<and> pick_severity up_newer inst_newer True sh uh pf pd = (''high'', ''prepare_hotfix'')"
  by (simp add: pick_severity_def spec_rules_def)

theorem pick_severity_first_match_witness:
  "first_match (spec_rules False True True False True False) = Some (''medium'', ''monitor'')
   \<and> pick_severity False True True [''schema''] [] True True = (''high'', ''prepare_hotfix'')"
proof -
  have a: "first_match (spec_rules False True True False True ([] \<noteq> ([]::string list) \<or> [] \<noteq> ([]::string list)))
      = Some (pick_severity False True False [] [] True True)"
    using pick_severity_first_match [of False True False "[]" "[]" True True] by blast
  have b: "pick_severity False True True [''schema''] [] True True = (''high'', ''prepare_hotfix'')"
    using pick_severity_first_match [of False True False "[''schema'']" "[]" True True] by blast
  from a b show ?thesis by (simp add: pick_severity_def)
qed

subsection \<open>Schema diff\<close>

lemma set_sorted_of_set: "finite A \<Longrightarrow> set (sorted_of_set A) = A"
  by (simp add: sorted_of_set_def)

lemma sorted_of_set_empty_iff: "finite A \<Longrightarrow> sorted_of_set A = [] \<longleftrightarrow> A = {}"
  by (simp add: sorted_of_set_def)

lemma sorted_of_set_singleton: "sorted_of_set {k} = [k]"
  by (simp add: sorted_of_set_def)

lemma finite_dict_keys: "finite (dict_keys d)"
  by (simp add: dict_keys_def)

lemma map_of_tabulate_filter:
  "map_of (map (\<lambda>t. (t, f t)) (filter P ts)) t = (if t \<in> set ts \<and> P t then Some (f t) else None)"
  by (induction ts) auto

lemma unknown_keys_lookup:
  "map_of (unknown_keys (schema_diff obs base)) t =
     (if t \<in> dict_keys obs \<union> dict_keys base
         \<and> set (dict_get obs t []) - set (dict_get base t []) \<noteq> {}
      then Some (sorted_of_set (set (dict_get obs t []) - set (dict_get base t [])))
      else None)"
  by (simp add: schema_diff_def Let_def map_of_tabulate_filter set_sorted_of_set
      sorted_of_set_empty_iff finite_dict_keys)

lemma missing_keys_lookup:
  "map_of (missing_keys (schema_diff obs base)) t =
     (if t \<in> dict_keys obs \<union> dict_keys base
         \<and> set (dict_get base t []) - set (dict_get obs t []) \<noteq> {}
      then Some (sorted_of_set (set (dict_get base t []) - set (dict_get obs t [])))
      else None)"
  by (simp add: schema_diff_def Let_def map_of_tabulate_filter set_sorted_of_set
      sorted_of_set_empty_iff finite_dict_keys)

lemma unknown_keys_empty_iff:
  "unknown_keys (schema_diff obs base) = [] \<longleftrightarrow>
     (\<forall>t \<in> dict_keys obs \<union> dict_keys base. set (dict_get obs t []) \<subseteq> set (dict_get base t []))"
  by (auto simp add: schema_diff_def Let_def filter_empty_conv set_sorted_of_set
      sorted_of_set_empty_iff finite_dict_keys)

lemma unknown_types_empty_iff:
  "unknown_types (schema_diff obs base) = [] \<longleftrightarrow> dict_keys obs \<subseteq> dict_keys base"
  by (simp add: schema_diff_def Let_def sorted_of_set_empty_iff finite_dict_keys)

lemma missing_types_empty_iff:
  "missing_types (schema_diff obs base) = [] \<longleftrightarrow> dict_keys base \<subseteq> dict_keys obs"
  by (simp add: schema_diff_def Let_def sorted_of_set_empty_iff finite_dict_keys)

lemma drift_iff:
  "drift (schema_diff obs base) \<longleftrightarrow>
     unknown_types (schema_diff obs base) \<noteq> [] \<or> unknown_keys (schema_diff obs base) \<noteq> []"
  by (simp add: drift_def schema_diff_def Let_def)

lemma dict_get_not_key: "t \<notin> dict_keys d \<Longrightarrow> dict_get d t [] = []"
  by (simp add: dict_get_def dict_keys_def map_of_eq_None_iff[THEN iffD2])

lemma drift_semantic:
  "drift (schema_diff obs base) \<longleftrightarrow>
     (\<exists>t. t \<in> dict_keys obs \<and> t \<notin> dict_keys base)
     \<or> (\<exists>t k. k \<in> set (dict_get obs t []) \<and> k \<notin> set (dict_get base t []))"
proof -
  have "(\<forall>t \<in> dict_keys obs \<union> dict_keys base.
           set (dict_get obs t []) \<subseteq> set (dict_get base t []))
      \<longleftrightarrow> (\<forall>t. set (dict_get obs t []) \<subseteq> set (dict_get base t []))"
  proof
    assume a: "\<forall>t \<in> dict_keys obs \<union> dict_keys base.
           set (dict_get obs t []) \<subseteq> set (dict_get base t [])"
    show "\<forall>t. set (dict_get obs t []) \<subseteq> set (dict_get base t [])"
    proof
      fix t
      show "set (dict_get obs t []) \<subseteq> set (dict_get base t [])"
      proof (cases "t \<in> dict_keys obs")
        case True
        with a show ?thesis by blast
      next
        case False
        then show ?thesis by (simp add: dict_get_not_key)
      qed
    qed
  qed blast
  then show ?thesis
    unfolding drift_iff unknown_types_empty_iff unknown_keys_empty_iff by blast
qed

lemma filter_single:
  assumes "sorted xs" "distinct xs" "t \<in> set xs" "\<forall>x \<in> set xs. P x \<longleftrightarrow> x = t"
  shows "filter P xs = [t]"
proof -
  have "filter P xs = filter (\<lambda>x. x = t) xs"
    using assms(4) by (intro filter_cong) auto
  also have "\<dots> = [t]"
    using assms(2,3) by (induction xs) (auto simp: filter_empty_conv)
  finally show ?thesis .
qed

lemma missing_keys_single:
  assumes keys: "dict_keys obs = dict_keys base"
    and t: "t \<in> dict_keys base"
    and k: "set (dict_get base t []) - set (dict_get obs t []) = {k}"
    and other: "\<forall>t'. t' \<noteq> t \<longrightarrow> set (dict_get base t' []) \<subseteq> set (dict_get obs t' [])"
  shows "missing_keys (schema_diff obs base) = [(t, [k])]"
proof -
  let ?miss = "\<lambda>u. sorted_of_set (set (dict_get base u []) - set (dict_get obs u []))"
  let ?ts = "sorted_of_set (dict_keys obs \<union> dict_keys base)"
  have "filter (\<lambda>u. ?miss u \<noteq> []) ?ts = [t]"
  proof (rule filter_single)
    show "sorted ?ts" "distinct ?ts" by (simp_all add: sorted_of_set_def)
    show "t \<in> set ?ts" using t keys by (simp add: set_sorted_of_set finite_dict_keys)
    show "\<forall>x\<in>set ?ts. (?miss x \<noteq> []) = (x = t)"
      using k other by (auto simp: sorted_of_set_empty_iff)
  qed
  then show ?thesis
    using k by (simp add: schema_diff_def Let_def sorted_of_set_singleton)
qed

text \<open>
  C1. The drift verdict of a diff is true exactly when \<open>unknown_types\<close> or
  \<open>unknown_keys\<close> is non-empty. A field name observed under a type of the baseline
  that the baseline lacks for that type makes the verdict true and is listed under
  \<open>unknown_keys\<close> of that type. Removing one known field from one type (all else
  equal) leaves the verdict false and both unknown parts and \<open>missing_types\<close> empty:
  the only entry of the diff is that field under \<open>missing_keys\<close> of its type. In terms
  of the two fingerprints, the verdict is true exactly when an observed type, or an observed
  field name of some type, is not in the baseline (names compared for equality).
\<close>

theorem schema_diff_drift_verdict:
  "(drift (schema_diff obs base) \<longleftrightarrow>
      unknown_types (schema_diff obs base) \<noteq> [] \<or> unknown_keys (schema_diff obs base) \<noteq> [])
   \<and> (\<forall>t k. t \<in> dict_keys base \<and> t \<in> dict_keys obs
          \<and> k \<in> set (dict_get obs t []) \<and> k \<notin> set (dict_get base t [])
        \<longrightarrow> drift (schema_diff obs base)
            \<and> (\<exists>ks. map_of (unknown_keys (schema_diff obs base)) t = Some ks \<and> k \<in> set ks))
   \<and> (\<forall>t k. dict_keys obs = dict_keys base \<and> t \<in> dict_keys base
          \<and> k \<in> set (dict_get base t [])
          \<and> set (dict_get obs t []) = set (dict_get base t []) - {k}
          \<and> (\<forall>t'. t' \<noteq> t \<longrightarrow> set (dict_get obs t' []) = set (dict_get base t' []))
        \<longrightarrow> \<not> drift (schema_diff obs base)
            \<and> unknown_types (schema_diff obs base) = []
            \<and> unknown_keys (schema_diff obs base) = []
            \<and> missing_types (schema_diff obs base) = []
            \<and> missing_keys (schema_diff obs base) = [(t, [k])])
   \<and> (drift (schema_diff obs base) \<longleftrightarrow>
        (\<exists>t. t \<in> dict_keys obs \<and> t \<notin> dict_keys base)
        \<or> (\<exists>t k. k \<in> set (dict_get obs t []) \<and> k \<notin> set (dict_get base t [])))"
proof (intro conjI allI impI)
  show "drift (schema_diff obs base) \<longleftrightarrow>
      unknown_types (schema_diff obs base) \<noteq> [] \<or> unknown_keys (schema_diff obs base) \<noteq> []"
    by (rule drift_iff)
next
  fix t k
  assume h: "t \<in> dict_keys base \<and> t \<in> dict_keys obs
          \<and> k \<in> set (dict_get obs t []) \<and> k \<notin> set (dict_get base t [])"
  then have ne: "set (dict_get obs t []) - set (dict_get base t []) \<noteq> {}" by auto
  with h have "unknown_keys (schema_diff obs base) \<noteq> []"
    unfolding unknown_keys_empty_iff by auto
  then show "drift (schema_diff obs base)" by (simp add: drift_iff)
  from h ne show "\<exists>ks. map_of (unknown_keys (schema_diff obs base)) t = Some ks \<and> k \<in> set ks"
    by (simp add: unknown_keys_lookup set_sorted_of_set)
next
  fix t k
  assume h: "dict_keys obs = dict_keys base \<and> t \<in> dict_keys base
          \<and> k \<in> set (dict_get base t [])
          \<and> set (dict_get obs t []) = set (dict_get base t []) - {k}
          \<and> (\<forall>t'. t' \<noteq> t \<longrightarrow> set (dict_get obs t' []) = set (dict_get base t' []))"
  have sub: "set (dict_get obs u []) \<subseteq> set (dict_get base u [])" for u
    using h by (cases "u = t") auto
  show ut: "unknown_types (schema_diff obs base) = []"
    using h by (simp add: unknown_types_empty_iff)
  show uk: "unknown_keys (schema_diff obs base) = []"
    using sub by (simp add: unknown_keys_empty_iff)
  from ut uk show "\<not> drift (schema_diff obs base)" by (simp add: drift_iff)
  show "missing_types (schema_diff obs base) = []"
    using h by (simp add: missing_types_empty_iff)
  show "missing_keys (schema_diff obs base) = [(t, [k])]"
  proof (rule missing_keys_single)
    show "set (dict_get base t []) - set (dict_get obs t []) = {k}" using h by auto
  qed (use h in auto)
next
  show "drift (schema_diff obs base) \<longleftrightarrow>
        (\<exists>t. t \<in> dict_keys obs \<and> t \<notin> dict_keys base)
        \<or> (\<exists>t k. k \<in> set (dict_get obs t []) \<and> k \<notin> set (dict_get base t []))"
    by (rule drift_semantic)
qed

theorem schema_diff_drift_verdict_witness:
  "drift (schema_diff [(''message.user'', [''role'', ''content'', ''attachments''])]
                       [(''message.user'', [''role'', ''content''])])
   \<and> map_of (unknown_keys (schema_diff [(''message.user'', [''role'', ''content'', ''attachments''])]
                       [(''message.user'', [''role'', ''content''])])) ''message.user''
       = Some [''attachments'']
   \<and> \<not> drift (schema_diff [(''message.user'', [''role''])]
                       [(''message.user'', [''role'', ''content''])])
   \<and> missing_keys (schema_diff [(''message.user'', [''role''])]
                       [(''message.user'', [''role'', ''content''])])
       = [(''message.user'', [''content''])]"
proof -
  let ?o1 = "[(''message.user'', [''role'', ''content'', ''attachments''])]"
  let ?o2 = "[(''message.user'', [''role''])]"
  let ?b = "[(''message.user'', [''role'', ''content''])]"
  note thm1 = schema_diff_drift_verdict [of ?o1 ?b]
  note thm2 = schema_diff_drift_verdict [of ?o2 ?b]
  have pre1: "''message.user'' \<in> dict_keys ?b \<and> ''message.user'' \<in> dict_keys ?o1
      \<and> ''attachments'' \<in> set (dict_get ?o1 ''message.user'' [])
      \<and> ''attachments'' \<notin> set (dict_get ?b ''message.user'' [])"
    by (simp add: dict_keys_def dict_get_def)
  have pre2: "dict_keys ?o2 = dict_keys ?b \<and> ''message.user'' \<in> dict_keys ?b
      \<and> ''content'' \<in> set (dict_get ?b ''message.user'' [])
      \<and> set (dict_get ?o2 ''message.user'' []) = set (dict_get ?b ''message.user'' []) - {''content''}
      \<and> (\<forall>t'. t' \<noteq> ''message.user'' \<longrightarrow> set (dict_get ?o2 t' []) = set (dict_get ?b t' []))"
    by (auto simp add: dict_keys_def dict_get_def)
  have a: "drift (schema_diff ?o1 ?b)"
    using thm1[THEN conjunct2, THEN conjunct1, THEN spec, THEN spec, THEN mp, OF pre1] by simp
  have b: "map_of (unknown_keys (schema_diff ?o1 ?b)) ''message.user'' = Some [''attachments'']"
    by code_simp
  note r = thm2[THEN conjunct2, THEN conjunct2, THEN conjunct1, THEN spec, THEN spec, THEN mp,
      OF pre2]
  have c: "\<not> drift (schema_diff ?o2 ?b)" using r by (rule conjunct1)
  have d: "missing_keys (schema_diff ?o2 ?b) = [(''message.user'', [''content''])]"
    using r by (elim conjE)
  show ?thesis by (intro conjI a b c d)
qed

text \<open>
  C8. The diff is symmetric in structure: the unknown types of \<open>diff A B\<close> are the
  missing types of \<open>diff B A\<close>, and the per-type unknown keys of the one are the
  per-type missing keys of the other.
\<close>

theorem schema_diff_symmetric:
  "unknown_types (schema_diff A B) = missing_types (schema_diff B A)
   \<and> missing_types (schema_diff A B) = unknown_types (schema_diff B A)
   \<and> unknown_keys (schema_diff A B) = missing_keys (schema_diff B A)
   \<and> missing_keys (schema_diff A B) = unknown_keys (schema_diff B A)"
  by (simp add: schema_diff_def Let_def Un_commute)

theorem schema_diff_symmetric_witness:
  "unknown_types (schema_diff [(''a'', [''x'']), (''b'', [''y''])] [(''a'', [''x'', ''z''])]) = [''b'']
   \<and> missing_types (schema_diff [(''a'', [''x'', ''z''])] [(''a'', [''x'']), (''b'', [''y''])]) = [''b'']
   \<and> missing_keys (schema_diff [(''a'', [''x'']), (''b'', [''y''])] [(''a'', [''x'', ''z''])])
        = [(''a'', [''z''])]
   \<and> unknown_keys (schema_diff [(''a'', [''x'', ''z''])] [(''a'', [''x'']), (''b'', [''y''])])
        = [(''a'', [''z''])]"
proof -
  let ?A = "[(''a'', [''x'']), (''b'', [''y''])]"
  let ?B = "[(''a'', [''x'', ''z''])]"
  note sym = schema_diff_symmetric [of ?A ?B]
  have a: "unknown_types (schema_diff ?A ?B) = [''b'']" by code_simp
  have b: "missing_keys (schema_diff ?A ?B) = [(''a'', [''z''])]" by code_simp
  from a sym have c: "missing_types (schema_diff ?B ?A) = [''b'']" by simp
  from b sym have d: "unknown_keys (schema_diff ?B ?A) = [(''a'', [''z''])]" by simp
  show ?thesis by (intro conjI a b c d)
qed

subsection \<open>The deep-mode override\<close>

lemma smb_iff:
  "schema_matches_baseline (Some obs) base = Some True
     \<longleftrightarrow> base \<noteq> [] \<and> \<not> drift (schema_diff obs base)"
  by (simp add: schema_matches_baseline_def drift_def)

text \<open>
  C3. In weekly (deep) mode, with \<open>installed_newer_than_verified\<close> true and every other
  severity input false, a live schema comparison that shows no drift (a local fingerprint
  was compared against a non-empty baseline and \<open>unknown_only_is_empty\<close> came out true)
  turns the decision (medium, run\_weekly\_now) of \<open>pick_severity\<close> into
  (low, bump\_verified\_version). For all inputs, the severity after the override is never
  above the severity before it.
\<close>

theorem deep_mode_override:
  "(schema_matches_baseline (Some obs) base = Some True
      \<longleftrightarrow> base \<noteq> [] \<and> \<not> drift (schema_diff obs base))
   \<and> (schema_matches_baseline (Some obs) base = Some True \<longrightarrow>
        final_decision Weekly False True False [] [] False False
          (schema_matches_baseline (Some obs) base) = (''low'', ''bump_verified_version''))
   \<and> pick_severity False True False [] [] False False = (''medium'', ''run_weekly_now'')
   \<and> severity_rank (fst (final_decision md up_newer inst_newer mf sh uh pf pd m))
        \<le> severity_rank (fst (pick_severity up_newer inst_newer mf sh uh pf pd))"
proof (intro conjI impI)
  show "schema_matches_baseline (Some obs) base = Some True
      \<longleftrightarrow> base \<noteq> [] \<and> \<not> drift (schema_diff obs base)"
    by (rule smb_iff)
  show "pick_severity False True False [] [] False False = (''medium'', ''run_weekly_now'')"
    by (simp add: pick_severity_def)
  show "final_decision Weekly False True False [] [] False False
          (schema_matches_baseline (Some obs) base) = (''low'', ''bump_verified_version'')"
    if "schema_matches_baseline (Some obs) base = Some True"
    using that by (simp add: final_decision_def pick_severity_def)
  show "severity_rank (fst (final_decision md up_newer inst_newer mf sh uh pf pd m))
        \<le> severity_rank (fst (pick_severity up_newer inst_newer mf sh uh pf pd))"
    by (cases "pick_severity up_newer inst_newer mf sh uh pf pd")
       (auto simp add: final_decision_def)
qed

theorem deep_mode_override_witness:
  "final_decision Weekly False True False [] [] False False
     (schema_matches_baseline (Some [(''user'', [''role''])]) [(''user'', [''role'', ''content''])])
   = (''low'', ''bump_verified_version'')"
proof -
  let ?o = "[(''user'', [''role''])]"
  let ?b = "[(''user'', [''role'', ''content''])]"
  have pre: "schema_matches_baseline (Some ?o) ?b = Some True" by code_simp
  show ?thesis
    using deep_mode_override [of ?o ?b, THEN conjunct2, THEN conjunct1, THEN mp, OF pre] .
qed

text \<open>
  C4 as stated fails: with a keyword hit, \<open>installed_newer_than_verified\<close> and a schema
  comparison without drift, the weekly decision is not (medium, run\_weekly\_now).
\<close>

theorem keyword_hits_block_override_counterexample:
  "final_decision Weekly False True False [''breaking''] [] False False
     (schema_matches_baseline (Some [(''user'', [''role''])]) [(''user'', [''role''])])
   \<noteq> (''medium'', ''run_weekly_now'')"
  by code_simp

text \<open>
  C4, as the code has it. The override does not look at the keyword hits. With keyword hits
  and \<open>installed_newer_than_verified\<close> both true (monitoring and probes not failed), the
  decision is (low, bump\_verified\_version) in weekly mode when the schema comparison
  matched the baseline, and (medium, run\_weekly\_now) otherwise.
\<close>

theorem keyword_hits_do_not_block_override:
  "sh \<noteq> [] \<or> uh \<noteq> [] \<Longrightarrow>
   final_decision md up_newer True False sh uh False pd m =
     (if md = Weekly \<and> m = Some True then (''low'', ''bump_verified_version'')
      else (''medium'', ''run_weekly_now''))"
  by (simp add: final_decision_def pick_severity_def)

theorem keyword_hits_do_not_block_override_witness:
  "final_decision Weekly False True False [''breaking''] [] False False (Some True)
     = (''low'', ''bump_verified_version'')
   \<and> final_decision Weekly False True False [''breaking''] [] False False (Some False)
     = (''medium'', ''run_weekly_now'')
   \<and> final_decision Weekly False True False [''breaking''] [] False False None
     = (''medium'', ''run_weekly_now'')"
proof -
  have h: "[''breaking''] \<noteq> [] \<or> ([]::string list) \<noteq> []" by simp
  note t = keyword_hits_do_not_block_override [OF h, of Weekly False False]
  show ?thesis using t [of "Some True"] t [of "Some False"] t [of None] by simp
qed

subsection \<open>Balanced-brace extraction\<close>

lemma py_index_nat: "i < length text \<Longrightarrow> py_index text (int i) = Inr (text ! i)"
  by (simp add: py_index_def)

lemma py_slice_nat:
  "a \<le> length text \<Longrightarrow> py_slice text (int a) (int b) = take (b - a) (drop a text)"
  by (cases "b \<le> length text") (simp_all add: py_slice_def Let_def min_def nat_diff_distrib')

lemma scan_braces_first_close:
  "scan_braces text start (int i) ins esc d =
     Inr (map_option (\<lambda>n. py_slice text start (int (i + n))) (first_close ins esc d (drop i text)))"
proof (induction "length text - i" arbitrary: i ins esc d)
  case 0
  then show ?case by (subst scan_braces.simps) simp
next
  case (Suc k)
  then have lt: "i < length text" by simp
  have dr: "drop i text = text ! i # drop (Suc i) text"
    using lt by (simp add: Cons_nth_drop_Suc)
  have nx: "int i + 1 = int (Suc i)" by simp
  have ih: "scan_braces text start (int (Suc i)) a b c =
     Inr (map_option (\<lambda>n. py_slice text start (int (Suc i + n))) (first_close a b c (drop (Suc i) text)))"
    for a b c
    using Suc.hyps(1)[of "Suc i" a b c] Suc.hyps(2) by simp
  show ?case
    apply (subst scan_braces.simps)
    apply (simp only: dr nx py_index_nat[OF lt])
    using lt apply (simp add: ih option.map_comp comp_def del: of_nat_Suc of_nat_add)
    done
qed

lemma depth_from_Nil [simp]: "depth_from ins esc d [] = d"
  by (simp add: depth_from_def)

lemma first_close_pos: "first_close ins esc d cs = Some n \<Longrightarrow> 0 < n \<and> n \<le> length cs"
  by (induction cs arbitrary: ins esc d n) (auto split: if_splits)

lemma first_close_brace: "first_close ins esc d cs = Some n \<Longrightarrow> cs ! (n - 1) = CHR ''}''"
proof (induction cs arbitrary: ins esc d n)
  case Nil
  then show ?case by simp
next
  case (Cons c cs)
  show ?case
  proof (cases "\<not> ins \<and> c = CHR ''}'' \<and> d - 1 = 0")
    case True
    with Cons.prems show ?thesis by auto
  next
    case False
    with Cons.prems obtain ins' esc' d' m where
      m: "first_close ins' esc' d' cs = Some m" "n = Suc m"
      by (auto split: if_splits)
    from Cons.IH[OF m(1)] first_close_pos[OF m(1)] m(2) show ?thesis
      by (cases m) auto
  qed
qed

lemma first_close_step:
  "first_close ins esc d (c # cs) =
     (if \<not> ins \<and> c = CHR ''}'' \<and> d = 1 then Some 1
      else case lex_step ins esc d c of (ins', esc', d') \<Rightarrow>
             map_option Suc (first_close ins' esc' d' cs))"
  by simp

lemma depth_from_step:
  "(esc \<longrightarrow> ins) \<Longrightarrow>
   depth_from ins esc d (c # cs) =
     (case lex_step ins esc d c of (ins', esc', d') \<Rightarrow> depth_from ins' esc' d' cs)"
  by (cases ins; cases esc) (simp_all add: depth_from_def)

lemma lex_step_inv:
  "(esc \<longrightarrow> ins) \<Longrightarrow> lex_step ins esc d c = (ins', esc', d') \<Longrightarrow> (esc' \<longrightarrow> ins')"
  by (auto split: if_splits)

lemma lex_step_depth:
  "1 \<le> d \<Longrightarrow> lex_step ins esc d c = (ins', esc', d') \<Longrightarrow>
   (if \<not> ins \<and> c = CHR ''}'' \<and> d = 1 then d' = 0 else 1 \<le> d')"
  by (auto split: if_splits)

declare first_close.simps(2) [simp del] lex_step.simps [simp del]

lemma first_close_least:
  "(esc \<longrightarrow> ins) \<Longrightarrow> 1 \<le> d \<Longrightarrow>
   first_close ins esc d cs = Some n \<longleftrightarrow>
     (0 < n \<and> n \<le> length cs \<and> depth_from ins esc d (take n cs) = 0
      \<and> (\<forall>m. 0 < m \<and> m < n \<longrightarrow> depth_from ins esc d (take m cs) \<noteq> 0))"
proof (induction cs arbitrary: ins esc d n)
  case Nil
  then show ?case by simp
next
  case (Cons c cs)
  obtain ins' esc' d' where st: "lex_step ins esc d c = (ins', esc', d')"
    by (cases "lex_step ins esc d c") auto
  have inv': "esc' \<longrightarrow> ins'" using lex_step_inv[OF Cons.prems(1) st] .
  have dp: "depth_from ins esc d (c # xs) = depth_from ins' esc' d' xs" for xs
    using depth_from_step[OF Cons.prems(1), of d c xs] st by simp
  have tk: "depth_from ins esc d (take (Suc k) (c # cs)) = depth_from ins' esc' d' (take k cs)" for k
    using dp by simp
  show ?case
  proof (cases "\<not> ins \<and> c = CHR ''}'' \<and> d = 1")
    case True
    then have d0: "d' = 0" using lex_step_depth[OF Cons.prems(2) st] by simp
    have one: "depth_from ins esc d (take 1 (c # cs)) = 0"
      using tk[of 0] d0 by simp
    have lhs: "first_close ins esc d (c # cs) = Some 1" using True by (simp add: first_close_step)
    show ?thesis
    proof
      assume "first_close ins esc d (c # cs) = Some n"
      then have "n = 1" using lhs by simp
      then show "0 < n \<and> n \<le> length (c # cs) \<and> depth_from ins esc d (take n (c # cs)) = 0
        \<and> (\<forall>m. 0 < m \<and> m < n \<longrightarrow> depth_from ins esc d (take m (c # cs)) \<noteq> 0)"
        using one by auto
    next
      assume r: "0 < n \<and> n \<le> length (c # cs) \<and> depth_from ins esc d (take n (c # cs)) = 0
        \<and> (\<forall>m. 0 < m \<and> m < n \<longrightarrow> depth_from ins esc d (take m (c # cs)) \<noteq> 0)"
      have "n = 1"
      proof (rule ccontr)
        assume "n \<noteq> 1"
        with r have "0 < (1::nat) \<and> 1 < n" by auto
        with r have "depth_from ins esc d (take 1 (c # cs)) \<noteq> 0" by blast
        with one show False by simp
      qed
      then show "first_close ins esc d (c # cs) = Some n" using lhs by simp
    qed
  next
    case False
    then have d1: "1 \<le> d'" using lex_step_depth[OF Cons.prems(2) st] by simp
    have lhs: "first_close ins esc d (c # cs) = map_option Suc (first_close ins' esc' d' cs)"
      using False st by (simp only: first_close_step) simp
    note IH = Cons.IH[OF inv' d1]
    show ?thesis
    proof
      assume "first_close ins esc d (c # cs) = Some n"
      then obtain k where k: "first_close ins' esc' d' cs = Some k" "n = Suc k"
        using lhs by auto
      from IH[of k] k(1) have kk: "0 < k" "k \<le> length cs" "depth_from ins' esc' d' (take k cs) = 0"
        "\<forall>m. 0 < m \<and> m < k \<longrightarrow> depth_from ins' esc' d' (take m cs) \<noteq> 0" by simp_all
      have "depth_from ins esc d (take m (c # cs)) \<noteq> 0" if "0 < m \<and> m < n" for m
      proof (cases m)
        case 0
        with that show ?thesis by simp
      next
        case (Suc j)
        show ?thesis
        proof (cases "j = 0")
          case True
          then show ?thesis using Suc tk[of 0] d1 by simp
        next
          case False
          then have "0 < j \<and> j < k" using that Suc k(2) by simp
          with kk(4) show ?thesis using Suc tk[of j] by simp
        qed
      qed
      then show "0 < n \<and> n \<le> length (c # cs) \<and> depth_from ins esc d (take n (c # cs)) = 0
        \<and> (\<forall>m. 0 < m \<and> m < n \<longrightarrow> depth_from ins esc d (take m (c # cs)) \<noteq> 0)"
        using kk k(2) tk[of k] by simp
    next
      assume r: "0 < n \<and> n \<le> length (c # cs) \<and> depth_from ins esc d (take n (c # cs)) = 0
        \<and> (\<forall>m. 0 < m \<and> m < n \<longrightarrow> depth_from ins esc d (take m (c # cs)) \<noteq> 0)"
      then obtain k where k: "n = Suc k" by (cases n) auto
      have k0: "0 < k"
      proof (rule ccontr)
        assume "\<not> 0 < k"
        then have "k = 0" by simp
        with r k tk[of 0] d1 show False by simp
      qed
      have a: "depth_from ins' esc' d' (take k cs) = 0" using r k tk[of k] by simp
      have b: "depth_from ins' esc' d' (take m cs) \<noteq> 0" if "0 < m \<and> m < k" for m
      proof -
        from that have "0 < Suc m \<and> Suc m < n" using k by simp
        with r have "depth_from ins esc d (take (Suc m) (c # cs)) \<noteq> 0" by blast
        then show ?thesis using tk[of m] by simp
      qed
      have "first_close ins' esc' d' cs = Some k"
        using IH[of k] k0 a b r k by simp
      then show "first_close ins esc d (c # cs) = Some n" using lhs k by simp
    qed
  qed
qed

lemma brace_depth_open:
  "brace_depth (CHR ''{'' # xs) = depth_from False False 1 xs"
  using depth_from_step[of False False 0 "CHR ''{''" xs]
  by (simp add: brace_depth_def depth_from_def lex_step.simps)

lemma extract_balanced_braces_eq:
  assumes "start < length text" "text ! start = CHR ''{''"
  shows "extract_balanced_braces text (int start) =
    Inr (map_option (\<lambda>k. take (Suc k) (drop start text))
          (first_close False False 1 (drop (Suc start) text)))"
proof -
  have dr: "drop start text = CHR ''{'' # drop (Suc start) text"
    using Cons_nth_drop_Suc [OF assms(1)] assms(2) by simp
  have fc: "first_close False False 0 (drop start text) =
      map_option Suc (first_close False False 1 (drop (Suc start) text))"
    by (simp add: dr first_close_step lex_step.simps)
  have sl: "py_slice text (int start) (int (start + n)) = take n (drop start text)" for n
    using assms(1) py_slice_nat [of start "text" "start + n"] by simp
  show ?thesis
    by (simp add: extract_balanced_braces_def scan_braces_first_close fc sl
        option.map_comp comp_def del: of_nat_Suc of_nat_add)
qed

lemma closes_at_iff:
  assumes "start < length text" "text ! start = CHR ''{''"
  shows "closes_at text start i \<longleftrightarrow>
    (\<exists>k. i = start + k \<and> 0 < k \<and> k \<le> length (drop (Suc start) text)
       \<and> depth_from False False 1 (take k (drop (Suc start) text)) = 0)"
proof -
  have dr: "drop start text = CHR ''{'' # drop (Suc start) text"
    using Cons_nth_drop_Suc[OF assms(1)] assms(2) by simp
  show ?thesis
  proof
    assume c: "closes_at text start i"
    then obtain k where k: "i = start + k" by (auto simp: closes_at_def le_iff_add)
    from c k have d: "depth_from False False 1 (take k (drop (Suc start) text)) = 0"
      by (simp add: closes_at_def dr brace_depth_open)
    then have "0 < k" by (cases k) auto
    moreover from c k have "k \<le> length (drop (Suc start) text)"
      by (auto simp add: closes_at_def)
    ultimately show "\<exists>k. i = start + k \<and> 0 < k \<and> k \<le> length (drop (Suc start) text)
       \<and> depth_from False False 1 (take k (drop (Suc start) text)) = 0"
      using k d by blast
  next
    assume "\<exists>k. i = start + k \<and> 0 < k \<and> k \<le> length (drop (Suc start) text)
       \<and> depth_from False False 1 (take k (drop (Suc start) text)) = 0"
    then obtain k where k: "i = start + k" "0 < k" "k \<le> length (drop (Suc start) text)"
       "depth_from False False 1 (take k (drop (Suc start) text)) = 0" by blast
    from k(1,3) assms(1) have "i < length text" by simp
    then show "closes_at text start i"
      using k by (simp add: closes_at_def dr brace_depth_open)
  qed
qed

text \<open>
  C10. For every text and every start index that points at an opening brace, the extraction
  returns a value (no error): \<open>None\<close> when the brace depth, counted outside string
  literals with backslash escapes honoured, never comes back to zero; and otherwise the
  text from the start index through the first position at which the depth is zero, which
  holds a closing brace. It never returns a shorter or longer string.
\<close>

theorem extract_balanced_braces_matching:
  assumes "start < length text" "text ! start = CHR ''{''"
  shows "(\<exists>r. extract_balanced_braces text (int start) = Inr r)
    \<and> ((\<forall>i. \<not> closes_at text start i) \<longrightarrow>
          extract_balanced_braces text (int start) = Inr None)
    \<and> ((\<exists>i. closes_at text start i) \<longrightarrow>
          (\<exists>s. extract_balanced_braces text (int start) = Inr (Some s)))
    \<and> (\<forall>s. extract_balanced_braces text (int start) = Inr (Some s) \<longrightarrow>
          (\<exists>i. closes_at text start i \<and> (\<forall>j<i. \<not> closes_at text start j)
               \<and> text ! i = CHR ''}''
               \<and> s = take (Suc i - start) (drop start text)))"
proof -
  let ?cs = "drop (Suc start) text"
  let ?Q = "\<lambda>k. 0 < k \<and> k \<le> length ?cs \<and> depth_from False False 1 (take k ?cs) = 0"
  note eq = extract_balanced_braces_eq[OF assms]
  note cl = closes_at_iff[OF assms]
  have least: "first_close False False 1 ?cs = Some n \<longleftrightarrow> ?Q n \<and> (\<forall>m<n. \<not> ?Q m)" for n
  proof -
    have "first_close False False 1 ?cs = Some n \<longleftrightarrow>
       (0 < n \<and> n \<le> length ?cs \<and> depth_from False False 1 (take n ?cs) = 0
         \<and> (\<forall>m. 0 < m \<and> m < n \<longrightarrow> depth_from False False 1 (take m ?cs) \<noteq> 0))"
      by (rule first_close_least) simp_all
    also have "\<dots> \<longleftrightarrow> ?Q n \<and> (\<forall>m<n. \<not> ?Q m)"
      by (auto dest: less_le_trans)
    finally show ?thesis .
  qed
  show ?thesis
  proof (cases "first_close False False 1 ?cs")
    case None
    have noQ: "\<not> ?Q k" for k
    proof
      assume "?Q k"
      then have "\<exists>n. ?Q n \<and> (\<forall>m<n. \<not> ?Q m)"
        using exists_least_iff[of ?Q] by blast
      then obtain n where "first_close False False 1 ?cs = Some n" using least by blast
      with None show False by simp
    qed
    then have nocl: "\<not> closes_at text start i" for i
      unfolding cl by blast
    from None eq have r: "extract_balanced_braces text (int start) = Inr None" by simp
    show ?thesis using r nocl by simp
  next
    case (Some n)
    then have Qn: "?Q n" and mn: "\<forall>m<n. \<not> ?Q m" using least[of n] by blast+
    from Some eq have r: "extract_balanced_braces text (int start)
        = Inr (Some (take (Suc n) (drop start text)))" by simp
    have c1: "closes_at text start (start + n)" unfolding cl using Qn by blast
    have c2: "\<not> closes_at text start j" if "j < start + n" for j
    proof
      assume "closes_at text start j"
      then obtain k where k: "j = start + k" "?Q k" unfolding cl by blast
      with that have "k < n" by simp
      with mn k(2) show False by blast
    qed
    have "?cs ! (n - 1) = CHR ''}''" using first_close_brace[OF Some] .
    moreover have "?cs ! (n - 1) = text ! (start + n)"
      using Qn assms(1) by (cases n) auto
    ultimately have c3: "text ! (start + n) = CHR ''}''" by simp
    have c4: "take (Suc n) (drop start text) = take (Suc (start + n) - start) (drop start text)"
      by simp
    have "\<exists>i. closes_at text start i \<and> (\<forall>j<i. \<not> closes_at text start j)
               \<and> text ! i = CHR ''}''
               \<and> take (Suc n) (drop start text) = take (Suc i - start) (drop start text)"
      using c1 c2 c3 c4 by blast
    then show ?thesis using r c1 by auto
  qed
qed

theorem extract_balanced_braces_matching_witness:
  \<open>extract_balanced_braces ''x{"a}"}y{}'' 1 = Inr (Some ''{"a}"}'')
   \<and> (\<exists>i. closes_at ''x{"a}"}y{}'' 1 i \<and> (\<forall>j<i. \<not> closes_at ''x{"a}"}y{}'' 1 j)
          \<and> ''x{"a}"}y{}'' ! i = CHR ''}''
          \<and> ''{"a}"}'' = take (Suc i - 1) (drop 1 ''x{"a}"}y{}''))
   \<and> extract_balanced_braces ''{"a}'' 0 = Inr None
   \<and> (\<forall>i. \<not> closes_at ''{"a}'' 0 i)\<close>
proof -
  let ?T = \<open>''x{"a}"}y{}''\<close>
  let ?U = \<open>''{"a}''\<close>
  have t1: "(1::nat) < length ?T" and t2: "?T ! 1 = CHR ''{''" by simp_all
  have u1: "(0::nat) < length ?U" and u2: "?U ! 0 = CHR ''{''" by simp_all
  note T = extract_balanced_braces_matching [OF t1 t2]
  note U = extract_balanced_braces_matching [OF u1 u2]
  have a: \<open>extract_balanced_braces ?T 1 = Inr (Some ''{"a}"}'')\<close> by code_simp
  have b: "extract_balanced_braces ?U 0 = Inr None" by code_simp
  have c: \<open>\<exists>i. closes_at ?T 1 i \<and> (\<forall>j<i. \<not> closes_at ?T 1 j) \<and> ?T ! i = CHR ''}''
          \<and> ''{"a}"}'' = take (Suc i - 1) (drop 1 ?T)\<close>
    using T [THEN conjunct2, THEN conjunct2, THEN conjunct2, THEN spec, THEN mp] a by simp
  have d: "\<forall>i. \<not> closes_at ?U 0 i"
  proof (rule ccontr)
    assume "\<not> (\<forall>i. \<not> closes_at ?U 0 i)"
    then have "\<exists>i. closes_at ?U 0 i" by blast
    with U [THEN conjunct2, THEN conjunct2, THEN conjunct1]
    have "\<exists>s. extract_balanced_braces ?U (int 0) = Inr (Some s)" by (rule mp)
    with b show False by simp
  qed
  show ?thesis by (intro conjI a b c d)
qed

text \<open>
  C5. On the text \<^verbatim>\<open>tool_name {"a": "b{c}", "d": 1}\<close>, whose first opening brace is at
  index 10, the extraction started there returns the whole object
  \<^verbatim>\<open>{"a": "b{c}", "d": 1}\<close>: the braces inside the quoted value do not end it, and the
  result is not the text cut at the first closing brace.
\<close>

theorem extract_balanced_braces_example:
  \<open>length (takeWhile (\<lambda>c. c \<noteq> CHR ''{'') ''tool_name {"a": "b{c}", "d": 1}'') = 10
   \<and> extract_balanced_braces ''tool_name {"a": "b{c}", "d": 1}'' 10
        = Inr (Some ''{"a": "b{c}", "d": 1}'')
   \<and> extract_balanced_braces ''tool_name {"a": "b{c}", "d": 1}'' 10
        \<noteq> Inr (Some ''{"a": "b{c}'')\<close>
proof -
  have a: \<open>extract_balanced_braces ''tool_name {"a": "b{c}", "d": 1}'' 10
        = Inr (Some ''{"a": "b{c}", "d": 1}'')\<close>
    by code_simp
  show ?thesis unfolding a by simp
qed

theorem extract_balanced_braces_example_witness:
  \<open>\<exists>s. extract_balanced_braces ''tool_name {"a": "b{c}", "d": 1}'' 10 = Inr (Some s)
        \<and> length s = 21 \<and> last s = CHR ''}''\<close>
proof -
  note e = extract_balanced_braces_example [THEN conjunct2, THEN conjunct1]
  show ?thesis unfolding e by simp
qed

subsection \<open>Fingerprints\<close>

lemma dict_get_update:
  "dict_get (AList.update k v d) t dflt = (if t = k then v else dict_get d t dflt)"
  by (simp add: dict_get_def update_conv')

lemma count_fold_Nil [simp]: "count_fold [] d = d"
  by (simp add: count_fold_def)

lemma count_fold_Cons [simp]:
  "count_fold (t # ts) d = count_fold ts (AList.update t (dict_get d t 0 + 1) d)"
  by (simp add: count_fold_def)

lemma union_fold_Nil [simp]: "union_fold [] d = d"
  by (simp add: union_fold_def)

lemma union_fold_Cons [simp]:
  "union_fold ((t, ks) # evs) d = union_fold evs (AList.update t (dict_get d t {} \<union> ks) d)"
  by (simp add: union_fold_def)

lemma union_fold_append: "union_fold (xs @ ys) d = union_fold ys (union_fold xs d)"
  by (simp add: union_fold_def)

lemma count_fold_keys: "fst ` set (count_fold ts d) = fst ` set d \<union> set ts"
  by (induction ts arbitrary: d) (auto simp: dom_update)

lemma union_fold_keys: "fst ` set (union_fold evs d) = fst ` set d \<union> fst ` set evs"
proof (induction evs arbitrary: d)
  case Nil
  then show ?case by simp
next
  case (Cons e evs)
  obtain u ks where e: "e = (u, ks)" by (cases e)
  show ?case unfolding e by (simp add: Cons.IH dom_update)
qed

lemma count_fold_distinct: "distinct (map fst d) \<Longrightarrow> distinct (map fst (count_fold ts d))"
  by (induction ts arbitrary: d) (auto simp: distinct_update)

lemma union_fold_distinct: "distinct (map fst d) \<Longrightarrow> distinct (map fst (union_fold evs d))"
proof (induction evs arbitrary: d)
  case Nil
  then show ?case by simp
next
  case (Cons e evs)
  obtain u ks where e: "e = (u, ks)" by (cases e)
  show ?case unfolding e using Cons.prems by (simp add: Cons.IH distinct_update)
qed

lemma count_fold_get:
  "dict_get (count_fold ts d) t 0 = dict_get d t 0 + int (count_list ts t)"
  by (induction ts arbitrary: d) (auto simp: dict_get_update)

lemma union_fold_get:
  "dict_get (union_fold evs d) t {} = dict_get d t {} \<union> \<Union> (snd ` {e \<in> set evs. fst e = t})"
proof (induction evs arbitrary: d)
  case Nil
  then show ?case by simp
next
  case (Cons e evs)
  obtain u ks where e: "e = (u, ks)" by (cases e)
  have "{x \<in> set (e # evs). fst x = t} = (if u = t then {e} else {}) \<union> {x \<in> set evs. fst x = t}"
    using e by auto
  then show ?case
    using Cons.IH[of "AList.update u (dict_get d u {} \<union> ks) d"] e
    by (auto simp: dict_get_update)
qed

lemma the_map_of_dict_get:
  "k \<in> fst ` set d \<Longrightarrow> the (map_of d k) = dict_get d k dflt"
  by (cases "map_of d k") (auto simp: dict_get_def map_of_eq_None_iff)

lemma sorted_keys_distinct:
  "distinct (map fst d) \<Longrightarrow> sorted_keys d = sorted_of_set (fst ` set d)"
  by (simp add: sorted_keys_def sorted_of_set_def sorted_list_of_set_sort_remdups
      distinct_remdups_id flip: set_map)

lemma finite_fst_set [simp]: "finite (fst ` set d)"
  by simp

lemma line_events_Nil [simp]: "line_events [] = []"
  by (simp add: line_events_def)

lemma line_events_Cons:
  "line_events (l # ls) =
     (case line_type l of None \<Rightarrow> line_events ls
      | Some t \<Rightarrow> (t, line_keys l) # line_events ls)"
  by (cases "line_type l") (simp_all add: line_events_def)

lemma line_events_append: "line_events (xs @ ys) = line_events xs @ line_events ys"
  by (simp add: line_events_def)

lemma mset_line_events: "mset ls' = mset ls \<Longrightarrow> mset (line_events ls') = mset (line_events ls)"
  unfolding line_events_def by simp

lemma ingest_line_step:
  "ingest_line l (a, n) =
     (case line_type l of
        Some t \<Rightarrow>
          a \<lparr> acc_type_counts := AList.update t (dict_get (acc_type_counts a) t 0 + 1) (acc_type_counts a),
              acc_type_keys := AList.update t (dict_get (acc_type_keys a) t {} \<union> line_keys l) (acc_type_keys a) \<rparr>
      | None \<Rightarrow> if line_fails l then a \<lparr> acc_parse_errors := acc_parse_errors a + 1 \<rparr> else a,
      n + 1)"
proof (cases l)
  case (Parsed v)
  then show ?thesis by (cases v) (simp_all add: add_record_def)
qed simp_all

lemma line_type_not_fails: "line_type l = Some t \<Longrightarrow> \<not> line_fails l"
  by (cases l) auto

lemma fold_ingest_total:
  "snd (fold ingest_line ls (a, n)) = n + int (length ls)"
  by (induction ls arbitrary: a n) (simp_all add: ingest_line_step)

lemma fold_ingest_errors:
  "acc_parse_errors (fst (fold ingest_line ls (a, n)))
     = acc_parse_errors a + int (length (filter line_fails ls))"
  by (induction ls arbitrary: a n)
     (auto simp add: ingest_line_step line_type_not_fails split: option.splits)

lemma fold_ingest_counts:
  "acc_type_counts (fst (fold ingest_line ls (a, n)))
     = count_fold (map fst (line_events ls)) (acc_type_counts a)"
  by (induction ls arbitrary: a n)
     (simp_all add: ingest_line_step line_events_Cons split: option.splits)

lemma fold_ingest_keys:
  "acc_type_keys (fst (fold ingest_line ls (a, n)))
     = union_fold (line_events ls) (acc_type_keys a)"
  by (induction ls arbitrary: a n)
     (simp_all add: ingest_line_step line_events_Cons split: option.splits)

lemma fold_lines_char:
  "fold_lines path ls =
     \<lparr> file = path,
       type_counts = map (\<lambda>k. (k, int (count_list (map fst (line_events ls)) k)))
                       (sorted_of_set (fst ` set (line_events ls))),
       type_keys = map (\<lambda>k. (k, sorted_of_set (\<Union> (snd ` {e \<in> set (line_events ls). fst e = k}))))
                       (sorted_of_set (fst ` set (line_events ls))),
       parse_errors = int (length (filter line_fails ls)),
       parsed_lines = int (length ls) \<rparr>"
proof -
  obtain a n where r: "fold ingest_line ls (empty_acc, 0) = (a, n)"
    by (cases "fold ingest_line ls (empty_acc, 0)")
  have n: "n = int (length ls)"
    using fold_ingest_total[of ls empty_acc 0] r by simp
  have pe: "acc_parse_errors a = int (length (filter line_fails ls))"
    using fold_ingest_errors[of ls empty_acc 0] r by (simp add: empty_acc_def)
  have tc: "acc_type_counts a = count_fold (map fst (line_events ls)) []"
    using fold_ingest_counts[of ls empty_acc 0] r by (simp add: empty_acc_def)
  have tk: "acc_type_keys a = union_fold (line_events ls) []"
    using fold_ingest_keys[of ls empty_acc 0] r by (simp add: empty_acc_def)
  have skc: "sorted_keys (acc_type_counts a) = sorted_of_set (fst ` set (line_events ls))"
    unfolding tc by (simp add: sorted_keys_distinct count_fold_distinct count_fold_keys)
  have skk: "sorted_keys (acc_type_keys a) = sorted_of_set (fst ` set (line_events ls))"
    unfolding tk by (simp add: sorted_keys_distinct union_fold_distinct union_fold_keys)
  have c: "map (\<lambda>k. (k, the (map_of (acc_type_counts a) k))) (sorted_of_set (fst ` set (line_events ls)))
      = map (\<lambda>k. (k, int (count_list (map fst (line_events ls)) k)))
                       (sorted_of_set (fst ` set (line_events ls)))"
  proof (rule map_cong[OF refl])
    fix k assume "k \<in> set (sorted_of_set (fst ` set (line_events ls)))"
    then have "k \<in> fst ` set (acc_type_counts a)"
      unfolding tc by (simp add: sorted_of_set_def count_fold_keys)
    then have "the (map_of (acc_type_counts a) k) = dict_get (acc_type_counts a) k 0"
      by (rule the_map_of_dict_get)
    also have "\<dots> = int (count_list (map fst (line_events ls)) k)"
      unfolding tc count_fold_get by (simp add: dict_get_def)
    finally show "(k, the (map_of (acc_type_counts a) k)) = (k, int (count_list (map fst (line_events ls)) k))"
      by simp
  qed
  have k: "map (\<lambda>k. (k, sorted_of_set (the (map_of (acc_type_keys a) k)))) (sorted_of_set (fst ` set (line_events ls)))
      = map (\<lambda>k. (k, sorted_of_set (\<Union> (snd ` {e \<in> set (line_events ls). fst e = k}))))
                       (sorted_of_set (fst ` set (line_events ls)))"
  proof (rule map_cong[OF refl])
    fix k assume "k \<in> set (sorted_of_set (fst ` set (line_events ls)))"
    then have "k \<in> fst ` set (acc_type_keys a)"
      unfolding tk by (simp add: sorted_of_set_def union_fold_keys)
    then have "the (map_of (acc_type_keys a) k) = dict_get (acc_type_keys a) k {}"
      by (rule the_map_of_dict_get)
    also have "\<dots> = \<Union> (snd ` {e \<in> set (line_events ls). fst e = k})"
      unfolding tk union_fold_get by (simp add: dict_get_def)
    finally show "(k, sorted_of_set (the (map_of (acc_type_keys a) k)))
       = (k, sorted_of_set (\<Union> (snd ` {e \<in> set (line_events ls). fst e = k})))"
      by simp
  qed
  show ?thesis
    by (simp add: fold_lines_def r n pe skc skk c k)
qed

lemma fold_lines_perm:
  assumes "mset ls' = mset ls"
  shows "fold_lines path ls' = fold_lines path ls"
proof -
  have ev: "mset (line_events ls') = mset (line_events ls)"
    using assms by (rule mset_line_events)
  have s: "set (line_events ls') = set (line_events ls)"
    using ev by (rule mset_eq_setD)
  have m: "mset (map fst (line_events ls')) = mset (map fst (line_events ls))"
    using ev by simp
  have c: "count_list (map fst (line_events ls')) k = count_list (map fst (line_events ls)) k" for k
  proof -
    have "count (mset (map fst (line_events ls'))) k = count (mset (map fst (line_events ls))) k"
      by (simp only: m)
    then show ?thesis by (simp only: count_mset)
  qed
  have l: "length ls' = length ls" using assms by (rule mset_eq_length)
  have "mset (filter line_fails ls') = mset (filter line_fails ls)"
    using assms by simp
  then have f: "length (filter line_fails ls') = length (filter line_fails ls)"
    by (rule mset_eq_length)
  show ?thesis
    unfolding fold_lines_char by (simp add: s c l f)
qed

lemma fold_lines_type_keys_idem:
  assumes "l \<in> set ls"
  shows "type_keys (fold_lines path (ls @ [l])) = type_keys (fold_lines path ls)"
proof -
  have "set (line_events (ls @ [l])) = set (line_events ls)"
    using assms by (auto simp: line_events_def)
  then show ?thesis unfolding fold_lines_char by simp
qed

lemma fold_lines_counts_grow:
  "parsed_lines (fold_lines path (ls @ [l])) = parsed_lines (fold_lines path ls) + 1"
  "line_type l = Some t \<Longrightarrow>
     dict_get (type_counts (fold_lines path (ls @ [l]))) t 0
       = dict_get (type_counts (fold_lines path ls)) t 0 + 1"
proof -
  show "parsed_lines (fold_lines path (ls @ [l])) = parsed_lines (fold_lines path ls) + 1"
    unfolding fold_lines_char by simp
  assume t: "line_type l = Some t"
  have get: "dict_get (map (\<lambda>k. (k, f k)) (sorted_of_set A)) t 0 = (if t \<in> A then f t else 0)"
    if "finite A" for f :: "string \<Rightarrow> int" and A
    using that by (simp add: dict_get_def map_of_map_restrict restrict_map_def sorted_of_set_def)
  have ev: "line_events (ls @ [l]) = line_events ls @ [(t, line_keys l)]"
    using t by (simp add: line_events_append line_events_Cons)
  have cnt: "dict_get (type_counts (fold_lines path xs)) t 0
      = int (count_list (map fst (line_events xs)) t)" for xs
  proof -
    have "dict_get (type_counts (fold_lines path xs)) t 0
        = (if t \<in> fst ` set (line_events xs)
           then int (count_list (map fst (line_events xs)) t) else 0)"
      unfolding fold_lines_char by (simp add: get)
    moreover have "count_list (map fst (line_events xs)) t = 0"
      if "t \<notin> fst ` set (line_events xs)"
      using that by (simp add: count_list_0_iff)
    ultimately show ?thesis by simp
  qed
  show "dict_get (type_counts (fold_lines path (ls @ [l]))) t 0
       = dict_get (type_counts (fold_lines path ls)) t 0 + 1"
    unfolding cnt ev by simp
qed

lemma sort_key_fst_distinct:
  assumes "distinct (map fst d)"
  shows "sort_key fst d = map (\<lambda>k. (k, the (map_of d k))) (sort (map fst d))"
proof -
  have s: "sort (map fst d) = map fst (sort_key fst d)"
    by (rule properties_for_sort) simp_all
  have "map (\<lambda>k. (k, the (map_of d k))) (map fst (sort_key fst d))
      = map (\<lambda>x. x) (sort_key fst d)"
    unfolding map_map
  proof (rule map_cong[OF refl])
    fix x assume "x \<in> set (sort_key fst d)"
    then have xd: "x \<in> set d" by simp
    have "map_of d (fst x) = Some (snd x)"
      using assms xd by simp
    then show "((\<lambda>k. (k, the (map_of d k))) \<circ> fst) x = x" by simp
  qed
  then show ?thesis unfolding s by simp
qed

lemma fold_type_keys_union:
  "fold (\<lambda>(t, keys) merged. AList.update t (dict_get merged t {} \<union> set keys) merged) tk m
     = union_fold (type_key_events tk) m"
proof (induction tk arbitrary: m)
  case Nil
  then show ?case by (simp add: type_key_events_def)
next
  case (Cons e tk)
  obtain t keys where e: "e = (t, keys)" by (cases e)
  show ?case unfolding e using Cons.IH by (simp add: type_key_events_def)
qed

lemma fold_fingerprints_union:
  "fold (\<lambda>tk merged.
          fold (\<lambda>(t, keys) merged. AList.update t (dict_get merged t {} \<union> set keys) merged)
            tk merged) fps m
     = union_fold (concat (map type_key_events fps)) m"
  by (induction fps arbitrary: m) (simp_all add: fold_type_keys_union union_fold_append)

lemma merge_type_keys_char:
  "merge_type_keys fps =
     (let E = set (concat (map type_key_events fps))
      in map (\<lambda>k. (k, sorted_of_set (\<Union> (snd ` {e \<in> E. fst e = k}))))
             (sorted_of_set (fst ` E)))"
proof -
  let ?evs = "concat (map type_key_events fps)"
  let ?M = "union_fold ?evs []"
  have d: "distinct (map fst ?M)" by (simp add: union_fold_distinct)
  have ks: "fst ` set ?M = fst ` set ?evs" by (simp add: union_fold_keys)
  have "merge_type_keys fps = map (\<lambda>(t, keys). (t, sorted_of_set keys)) (sort_key fst ?M)"
    by (simp add: merge_type_keys_def fold_fingerprints_union)
  also have "\<dots> = map (\<lambda>k. (k, sorted_of_set (the (map_of ?M k)))) (sort (map fst ?M))"
    unfolding sort_key_fst_distinct[OF d] by (simp add: comp_def)
  also have "sort (map fst ?M) = sorted_of_set (fst ` set ?evs)"
    using sorted_keys_distinct[OF d] ks by (simp add: sorted_keys_def)
  also have "map (\<lambda>k. (k, sorted_of_set (the (map_of ?M k)))) (sorted_of_set (fst ` set ?evs))
     = map (\<lambda>k. (k, sorted_of_set (\<Union> (snd ` {e \<in> set ?evs. fst e = k}))))
             (sorted_of_set (fst ` set ?evs))"
  proof (rule map_cong[OF refl])
    fix k assume "k \<in> set (sorted_of_set (fst ` set ?evs))"
    then have "k \<in> fst ` set ?M" unfolding ks by (simp add: sorted_of_set_def)
    then have "the (map_of ?M k) = dict_get ?M k {}" by (rule the_map_of_dict_get)
    also have "\<dots> = \<Union> (snd ` {e \<in> set ?evs. fst e = k})"
      unfolding union_fold_get by (simp add: dict_get_def)
    finally show "(k, sorted_of_set (the (map_of ?M k)))
        = (k, sorted_of_set (\<Union> (snd ` {e \<in> set ?evs. fst e = k})))" by simp
  qed
  finally show ?thesis by (simp add: Let_def)
qed

lemma merge_type_keys_set:
  assumes "set fps' = set fps"
  shows "merge_type_keys fps' = merge_type_keys fps"
proof -
  have "set (concat (map type_key_events fps')) = set (concat (map type_key_events fps))"
    using assms by simp
  then show ?thesis unfolding merge_type_keys_char by (simp only:)
qed

lemma keep_tail_fold:
  "int (length acc + length (filter (\<lambda>l. l \<noteq> Blank) ls)) \<le> max_lines \<Longrightarrow>
   fold (\<lambda>line lines.
            if line = Blank then lines
            else (let lines' = lines @ [line]
                  in if int (length lines') > max_lines then tl lines' else lines'))
        ls acc
     = acc @ filter (\<lambda>l. l \<noteq> Blank) ls"
  by (induction ls arbitrary: acc) (auto simp: Let_def)

lemma keep_tail_all:
  "int (length (filter (\<lambda>l. l \<noteq> Blank) file_lines)) \<le> max_lines \<Longrightarrow>
   keep_tail max_lines file_lines = filter (\<lambda>l. l \<noteq> Blank) file_lines"
  unfolding keep_tail_def using keep_tail_fold[of "[]" file_lines max_lines] by simp

lemma jsonl_schema_fingerprint_uncapped:
  "int (length (filter (\<lambda>l. l \<noteq> Blank) file_lines)) \<le> max_lines \<Longrightarrow>
   jsonl_schema_fingerprint path file_lines max_lines
     = fold_lines path (filter (\<lambda>l. l \<noteq> Blank) file_lines)"
  by (simp add: jsonl_schema_fingerprint_def keep_tail_all)

lemma jsonl_schema_fingerprint_perm:
  assumes "mset file_lines' = mset file_lines"
    and "int (length (filter (\<lambda>l. l \<noteq> Blank) file_lines)) \<le> max_lines"
  shows "jsonl_schema_fingerprint path file_lines' max_lines
     = jsonl_schema_fingerprint path file_lines max_lines"
proof -
  have m: "mset (filter (\<lambda>l. l \<noteq> Blank) file_lines') = mset (filter (\<lambda>l. l \<noteq> Blank) file_lines)"
    using assms(1) by simp
  then have "length (filter (\<lambda>l. l \<noteq> Blank) file_lines') = length (filter (\<lambda>l. l \<noteq> Blank) file_lines)"
    by (rule mset_eq_length)
  with assms(2) have "int (length (filter (\<lambda>l. l \<noteq> Blank) file_lines')) \<le> max_lines" by simp
  then show ?thesis
    using assms(2) fold_lines_perm[OF m] by (simp add: jsonl_schema_fingerprint_uncapped)
qed

text \<open>
  C7 as stated fails: ingesting the same record a second time changes the counts of the
  fingerprint (\<open>type_counts\<close>, and \<open>parsed_lines\<close> with it).
\<close>

theorem fingerprint_reingestion_counterexample:
  "type_counts (fold_lines ''s.jsonl''
      [Parsed (JObj [(''type'', JStr ''user''), (''text'', JStr ''hi'')]),
       Parsed (JObj [(''type'', JStr ''user''), (''text'', JStr ''hi'')])])
     = [(''user'', 2)]
   \<and> type_counts (fold_lines ''s.jsonl''
      [Parsed (JObj [(''type'', JStr ''user''), (''text'', JStr ''hi'')])])
     = [(''user'', 1)]
   \<and> fold_lines ''s.jsonl''
      [Parsed (JObj [(''type'', JStr ''user''), (''text'', JStr ''hi'')]),
       Parsed (JObj [(''type'', JStr ''user''), (''text'', JStr ''hi'')])]
     \<noteq> fold_lines ''s.jsonl''
      [Parsed (JObj [(''type'', JStr ''user''), (''text'', JStr ''hi'')])]"
proof -
  let ?r = "Parsed (JObj [(''type'', JStr ''user''), (''text'', JStr ''hi'')])"
  have a: "type_counts (fold_lines ''s.jsonl'' [?r, ?r]) = [(''user'', 2)]" by code_simp
  have b: "type_counts (fold_lines ''s.jsonl'' [?r]) = [(''user'', 1)]" by code_simp
  have c: "fold_lines ''s.jsonl'' [?r, ?r] \<noteq> fold_lines ''s.jsonl'' [?r]"
  proof
    assume "fold_lines ''s.jsonl'' [?r, ?r] = fold_lines ''s.jsonl'' [?r]"
    then have "type_counts (fold_lines ''s.jsonl'' [?r, ?r]) = type_counts (fold_lines ''s.jsonl'' [?r])"
      by (rule arg_cong)
    with a b show False by simp
  qed
  show ?thesis by (intro conjI a b c)
qed

text \<open>
  C7, as the code has it. Folding the same lines in any order yields the same fingerprint
  (type keys, counts, parse errors). Ingesting a line that was already ingested leaves
  \<open>type_keys\<close> unchanged, but the counts grow: \<open>parsed_lines\<close> by one, and
  \<open>type_counts\<close> of the record's type by one when the line is an object. Merging the
  type keys of fingerprints (\<open>merge_type_keys\<close>) does not depend on their order, and
  merging a fingerprint a second time changes nothing. The whole function
  \<open>jsonl_schema_fingerprint\<close> is independent of the order of the lines of a file as long
  as the file has at most \<open>max_lines\<close> non-blank lines (beyond that, the order decides
  which lines are kept).
\<close>

theorem fingerprint_fold_order_and_reingestion:
  "(mset ls' = mset ls \<longrightarrow> fold_lines path ls' = fold_lines path ls)
   \<and> (l \<in> set ls \<longrightarrow>
        type_keys (fold_lines path (ls @ [l])) = type_keys (fold_lines path ls))
   \<and> parsed_lines (fold_lines path (ls @ [l])) = parsed_lines (fold_lines path ls) + 1
   \<and> (line_type l = Some t \<longrightarrow>
        dict_get (type_counts (fold_lines path (ls @ [l]))) t 0
          = dict_get (type_counts (fold_lines path ls)) t 0 + 1)
   \<and> (mset fps' = mset fps \<longrightarrow> merge_type_keys fps' = merge_type_keys fps)
   \<and> (fp \<in> set fps \<longrightarrow> merge_type_keys (fps @ [fp]) = merge_type_keys fps)
   \<and> (mset file_lines' = mset file_lines
        \<and> int (length (filter (\<lambda>l. l \<noteq> Blank) file_lines)) \<le> max_lines \<longrightarrow>
        jsonl_schema_fingerprint path file_lines' max_lines
          = jsonl_schema_fingerprint path file_lines max_lines)"
proof (intro conjI impI)
  show "fold_lines path ls' = fold_lines path ls" if "mset ls' = mset ls"
    using that by (rule fold_lines_perm)
  show "type_keys (fold_lines path (ls @ [l])) = type_keys (fold_lines path ls)" if "l \<in> set ls"
    using that by (rule fold_lines_type_keys_idem)
  show "parsed_lines (fold_lines path (ls @ [l])) = parsed_lines (fold_lines path ls) + 1"
    by (rule fold_lines_counts_grow(1))
  show "dict_get (type_counts (fold_lines path (ls @ [l]))) t 0
          = dict_get (type_counts (fold_lines path ls)) t 0 + 1" if "line_type l = Some t"
    using that by (rule fold_lines_counts_grow(2))
  show "merge_type_keys fps' = merge_type_keys fps" if "mset fps' = mset fps"
    using that by (intro merge_type_keys_set mset_eq_setD)
  show "merge_type_keys (fps @ [fp]) = merge_type_keys fps" if "fp \<in> set fps"
    using that by (intro merge_type_keys_set) auto
  show "jsonl_schema_fingerprint path file_lines' max_lines
          = jsonl_schema_fingerprint path file_lines max_lines"
    if "mset file_lines' = mset file_lines
        \<and> int (length (filter (\<lambda>l. l \<noteq> Blank) file_lines)) \<le> max_lines"
    using that by (intro jsonl_schema_fingerprint_perm) simp_all
qed

theorem fingerprint_fold_order_and_reingestion_witness:
  "fold_lines ''s.jsonl''
      [Parsed (JObj [(''type'', JStr ''tool''), (''name'', JStr ''ls'')]), Malformed,
       Parsed (JObj [(''type'', JStr ''user''), (''text'', JStr ''hi'')])]
     = fold_lines ''s.jsonl''
      [Parsed (JObj [(''type'', JStr ''user''), (''text'', JStr ''hi'')]), Malformed,
       Parsed (JObj [(''type'', JStr ''tool''), (''name'', JStr ''ls'')])]
   \<and> type_keys (fold_lines ''s.jsonl''
      ([Parsed (JObj [(''type'', JStr ''user''), (''text'', JStr ''hi'')]), Malformed]
        @ [Parsed (JObj [(''type'', JStr ''user''), (''text'', JStr ''hi'')])]))
     = [(''user'', [''text'', ''type''])]
   \<and> dict_get (type_counts (fold_lines ''s.jsonl''
      ([Parsed (JObj [(''type'', JStr ''user''), (''text'', JStr ''hi'')]), Malformed]
        @ [Parsed (JObj [(''type'', JStr ''user''), (''text'', JStr ''hi'')])]))) ''user'' 0
     = 2
   \<and> merge_type_keys [[(''user'', [''text''])], [(''tool'', [''name''])]]
     = merge_type_keys [[(''tool'', [''name''])], [(''user'', [''text''])]]
   \<and> merge_type_keys ([[(''user'', [''text''])], [(''tool'', [''name''])]] @ [[(''user'', [''text''])]])
     = [(''tool'', [''name'']), (''user'', [''text''])]"
proof -
  let ?u = "Parsed (JObj [(''type'', JStr ''user''), (''text'', JStr ''hi'')])"
  let ?t = "Parsed (JObj [(''type'', JStr ''tool''), (''name'', JStr ''ls'')])"
  let ?A = "[(''user'', [''text''])]"
  let ?B = "[(''tool'', [''name''])]"
  note T1 = fingerprint_fold_order_and_reingestion
    [of "[?t, Malformed, ?u]" "[?u, Malformed, ?t]" "''s.jsonl''" "?u" "''user''" "[?B, ?A]" "[?A, ?B]" "?A"]
  note T2 = fingerprint_fold_order_and_reingestion
    [of "[?u, Malformed]" "[?u, Malformed]" "''s.jsonl''" "?u" "''user''" "[?A, ?B]" "[?A, ?B]" "?A"]
  have a: "fold_lines ''s.jsonl'' [?t, Malformed, ?u] = fold_lines ''s.jsonl'' [?u, Malformed, ?t]"
    using T1 [THEN conjunct1] by simp
  have b0: "type_keys (fold_lines ''s.jsonl'' ([?u, Malformed] @ [?u]))
      = type_keys (fold_lines ''s.jsonl'' [?u, Malformed])"
    using T2 [THEN conjunct2, THEN conjunct1] by simp
  have b1: "type_keys (fold_lines ''s.jsonl'' [?u, Malformed]) = [(''user'', [''text'', ''type''])]"
    by code_simp
  have c0: "dict_get (type_counts (fold_lines ''s.jsonl'' ([?u, Malformed] @ [?u]))) ''user'' 0
      = dict_get (type_counts (fold_lines ''s.jsonl'' [?u, Malformed])) ''user'' 0 + 1"
    using T2 [THEN conjunct2, THEN conjunct2, THEN conjunct2, THEN conjunct1]
    by (simp add: event_type_of_def)
  have c1: "dict_get (type_counts (fold_lines ''s.jsonl'' [?u, Malformed])) ''user'' 0 = 1"
    by code_simp
  have d: "merge_type_keys [?A, ?B] = merge_type_keys [?B, ?A]"
    using T1 [THEN conjunct2, THEN conjunct2, THEN conjunct2, THEN conjunct2, THEN conjunct1]
    by simp
  have e0: "merge_type_keys ([?A, ?B] @ [?A]) = merge_type_keys [?A, ?B]"
    using T2 [THEN conjunct2, THEN conjunct2, THEN conjunct2, THEN conjunct2, THEN conjunct2,
        THEN conjunct1]
    by simp
  have e1: "merge_type_keys [?A, ?B] = [(''tool'', [''name'']), (''user'', [''text''])]"
    by code_simp
  show ?thesis
    unfolding b0 b1 c0 c1 e0 e1 using a d e1 by simp
qed

subsection \<open>Tool-event clustering\<close>

lemma fold_structured_blocks:
  "fold (\<lambda>(dir, name, payload, shape, flds, fpath) cat.
            let (rawp, parsed, perr, payload_fields) = parse_payload lib payload;
                use_fields = (if flds \<noteq> [] then flds else payload_fields)
            in add_tool_block lib mg ms
                 \<lparr> agent = agt, tool_name = name, direction = dir,
                   shape_signature = shape, raw_event = raw, raw_payload = rawp,
                   parsed_payload = parsed, parse_error = perr, field_path = fpath,
                   field_names = use_fields, source_file = path, event_index = Some idx \<rparr>
                 cat)
        blocks cat
   = fold (add_tool_block lib mg ms)
       (map (\<lambda>(dir, name, payload, shape, flds, fpath).
               let (rawp, parsed, perr, payload_fields) = parse_payload lib payload;
                   use_fields = (if flds \<noteq> [] then flds else payload_fields)
               in \<lparr> agent = agt, tool_name = name, direction = dir,
                    shape_signature = shape, raw_event = raw, raw_payload = rawp,
                    parsed_payload = parsed, parse_error = perr, field_path = fpath,
                    field_names = use_fields, source_file = path, event_index = Some idx \<rparr>)
            blocks) cat"
  by (induction blocks arbitrary: cat) (simp_all add: Let_def split: prod.splits)

lemma fold_text_blocks:
  "fold (\<lambda>(name, raw_json, shape) cat.
            let (rawp, parsed, perr, payload_fields) = parse_payload lib (JStr raw_json);
                dir = infer_direction_from_payload lib parsed
            in add_tool_block lib mg ms
                 \<lparr> agent = agt, tool_name = Some name, direction = dir,
                   shape_signature = shape, raw_event = tx,
                   raw_payload = rawp, parsed_payload = parsed,
                   parse_error = perr, field_path = Some fpath,
                   field_names = payload_fields, source_file = path,
                   event_index = Some idx \<rparr>
                 cat)
        found cat
   = fold (add_tool_block lib mg ms)
       (map (\<lambda>(name, raw_json, shape).
               let (rawp, parsed, perr, payload_fields) = parse_payload lib (JStr raw_json);
                   dir = infer_direction_from_payload lib parsed
               in \<lparr> agent = agt, tool_name = Some name, direction = dir,
                    shape_signature = shape, raw_event = tx,
                    raw_payload = rawp, parsed_payload = parsed,
                    parse_error = perr, field_path = Some fpath,
                    field_names = payload_fields, source_file = path,
                    event_index = Some idx \<rparr>)
            found) cat"
  by (induction found arbitrary: cat) (simp_all add: Let_def split: prod.splits)

lemma fold_candidates_concat:
  "fold (\<lambda>(fpath, tx) cat.
           if length tx > MAX_TEXT_EVENT_LEN then cat else fold F (H fpath tx) cat) cands cat
   = fold F (concat (map (\<lambda>(fpath, tx).
                if length tx > MAX_TEXT_EVENT_LEN then [] else H fpath tx) cands)) cat"
  by (induction cands arbitrary: cat) (simp_all split: prod.splits)

lemma fold_text_candidates:
  "fold (\<lambda>(fpath, text) cat.
           if length text > MAX_TEXT_EVENT_LEN then cat
           else fold (\<lambda>(name, raw_json, shape) cat.
                        let (rawp, parsed, perr, payload_fields) =
                              parse_payload lib (JStr raw_json);
                            dir = infer_direction_from_payload lib parsed
                        in add_tool_block lib mg ms
                             \<lparr> agent = agt, tool_name = Some name, direction = dir,
                               shape_signature = shape, raw_event = text,
                               raw_payload = rawp, parsed_payload = parsed,
                               parse_error = perr, field_path = Some fpath,
                               field_names = payload_fields, source_file = path,
                               event_index = Some idx \<rparr>
                             cat)
                     (extract_text_tool_blocks lib text fpath) cat)
        cands cat
   = fold (add_tool_block lib mg ms)
       (concat (map (\<lambda>(fpath, text).
                  if length text > MAX_TEXT_EVENT_LEN then []
                  else map (\<lambda>(name, raw_json, shape).
                              let (rawp, parsed, perr, payload_fields) =
                                    parse_payload lib (JStr raw_json);
                                  dir = infer_direction_from_payload lib parsed
                              in \<lparr> agent = agt, tool_name = Some name, direction = dir,
                                   shape_signature = shape, raw_event = text,
                                   raw_payload = rawp, parsed_payload = parsed,
                                   parse_error = perr, field_path = Some fpath,
                                   field_names = payload_fields, source_file = path,
                                   event_index = Some idx \<rparr>)
                           (extract_text_tool_blocks lib text fpath))
                cands)) cat"
  by (simp only: fold_text_blocks fold_candidates_concat)

lemma scan_record_calls:
  "scan_record lib mg ms agt path r cat
     = fold (add_tool_block lib mg ms) (record_calls lib agt path r) cat"
proof -
  obtain idx obj raw where r: "r = (idx, obj, raw)" by (cases r)
  show ?thesis
    unfolding r scan_record_def record_calls_def prod.case
    by (simp only: Let_def [of "if agt = ''codex'' then _ else _"] Let_def [of "fold _ _ _"]
        fold_structured_blocks fold_text_candidates fold_append comp_def)
qed

lemma scan_jsonl_file_calls:
  "scan_jsonl_file lib mg ms f cat = fold (add_tool_block lib mg ms) (file_calls lib f) cat"
proof -
  have "fold (scan_record lib mg ms a p) rs c
      = fold (add_tool_block lib mg ms) (concat (map (record_calls lib a p) rs)) c" for a p rs c
    by (induction rs arbitrary: c) (simp_all add: scan_record_calls)
  then show ?thesis by (simp add: scan_jsonl_file_def file_calls_def)
qed

lemma scan_files_calls:
  "scan_files lib mg ms files = fold (add_tool_block lib mg ms) (all_calls lib files) ([], [])"
proof -
  have "fold (scan_jsonl_file lib mg ms) fs c
      = fold (add_tool_block lib mg ms) (concat (map (file_calls lib) fs)) c" for fs c
    by (induction fs arbitrary: c) (simp_all add: scan_jsonl_file_calls)
  then show ?thesis by (simp add: scan_files_def all_calls_def)
qed

lemma record_fields_count [simp]: "g_count (record_fields lib g fs) = g_count g"
  unfolding record_fields_def
  by (induction fs arbitrary: g) (simp_all add: Let_def)

lemma add_group_example_count [simp]: "g_count (add_group_example g e m) = g_count g"
  by (simp add: add_group_example_def)

lemma add_tool_block_groups:
  "\<exists>g. fst (add_tool_block lib mg ms b cat) = AList.update (block_key lib b) g (fst cat)
       \<and> g_count g = group_count cat (block_key lib b) + 1"
proof -
  obtain groups shapes where cat: "cat = (groups, shapes)" by (cases cat)
  show ?thesis
    unfolding cat add_tool_block_def block_key_def group_count_def
    by (cases "map_of groups (agent b, normalize_tool_name lib (tool_name b), shape_signature b,
          direction b)")
       (auto simp add: Let_def split: option.splits)
qed

lemma add_tool_block_keys:
  "group_keys (add_tool_block lib mg ms b cat) = insert (block_key lib b) (group_keys cat)"
proof -
  obtain g where "fst (add_tool_block lib mg ms b cat) = AList.update (block_key lib b) g (fst cat)"
    using add_tool_block_groups by blast
  then show ?thesis by (simp add: group_keys_def dom_update)
qed

lemma add_tool_block_count:
  "group_count (add_tool_block lib mg ms b cat) key
     = group_count cat key + (if key = block_key lib b then 1 else 0)"
proof -
  obtain g where g: "fst (add_tool_block lib mg ms b cat) = AList.update (block_key lib b) g (fst cat)"
    "g_count g = group_count cat (block_key lib b) + 1"
    using add_tool_block_groups by blast
  show ?thesis
    unfolding group_count_def[of "add_tool_block lib mg ms b cat"] g(1)
    using g(2) by (simp add: update_conv' group_count_def)
qed

lemma fold_add_keys:
  "group_keys (fold (add_tool_block lib mg ms) bs cat) = group_keys cat \<union> block_key lib ` set bs"
  by (induction bs arbitrary: cat) (simp_all add: add_tool_block_keys)

lemma fold_add_count:
  "group_count (fold (add_tool_block lib mg ms) bs cat) key
     = group_count cat key + int (count_list (map (block_key lib) bs) key)"
  by (induction bs arbitrary: cat) (simp_all add: add_tool_block_count)

lemma scan_files_keys:
  "group_keys (scan_files lib mg ms files) = block_key lib ` set (all_calls lib files)"
  unfolding scan_files_calls fold_add_keys by (simp add: group_keys_def)

lemma scan_files_count:
  "group_count (scan_files lib mg ms files) key
     = int (count_list (map (block_key lib) (all_calls lib files)) key)"
  unfolding scan_files_calls fold_add_count by (simp add: group_count_def)

lemma mset_all_calls:
  assumes "mset files' = mset files"
  shows "mset (all_calls lib files') = mset (all_calls lib files)"
proof -
  have "mset (all_calls lib fs) = (\<Sum>f\<in>#mset fs. mset (file_calls lib f))" for fs
    by (induction fs) (simp_all add: all_calls_def)
  then show ?thesis using assms by simp
qed

lemma scan_files_perm:
  assumes "mset files' = mset files"
  shows "group_keys (scan_files lib mg ms files') = group_keys (scan_files lib mg ms files)"
    and "group_count (scan_files lib mg ms files') key = group_count (scan_files lib mg ms files) key"
proof -
  note m = mset_all_calls[OF assms, of lib]
  have s: "set (all_calls lib files') = set (all_calls lib files)"
    using m by (rule mset_eq_setD)
  show "group_keys (scan_files lib mg ms files') = group_keys (scan_files lib mg ms files)"
    by (simp add: scan_files_keys s)
  have "mset (map (block_key lib) (all_calls lib files')) = mset (map (block_key lib) (all_calls lib files))"
    using m by simp
  then have "count (mset (map (block_key lib) (all_calls lib files'))) key
      = count (mset (map (block_key lib) (all_calls lib files))) key" by (simp only:)
  then show "group_count (scan_files lib mg ms files') key = group_count (scan_files lib mg ms files) key"
    by (simp only: scan_files_count count_mset)
qed

text \<open>
  C6. Clustering the records of a list of files, and clustering them with the files in
  the reversed order (or in any other order), yields the same set of group keys
  (producer family, normalized tool name, shape signature, direction) and the same count
  for every key; the count of a key is the number of tool blocks of the records with that
  key.
\<close>

theorem clustering_order_independent:
  "group_keys (scan_files lib mg ms (rev files)) = group_keys (scan_files lib mg ms files)
   \<and> (\<forall>key. group_count (scan_files lib mg ms (rev files)) key
              = group_count (scan_files lib mg ms files) key)
   \<and> (mset files' = mset files \<longrightarrow>
        group_keys (scan_files lib mg ms files') = group_keys (scan_files lib mg ms files)
        \<and> (\<forall>key. group_count (scan_files lib mg ms files') key
                  = group_count (scan_files lib mg ms files) key))
   \<and> (\<forall>key. group_count (scan_files lib mg ms files) key
          = int (length (filter (\<lambda>b. block_key lib b = key) (all_calls lib files))))"
proof -
  have r: "mset (rev files) = mset files" by simp
  have c: "count_list (map f xs) k = length (filter (\<lambda>b. f b = k) xs)" for f :: "'a \<Rightarrow> 'b" and xs k
    by (induction xs) simp_all
  show ?thesis
    using scan_files_perm[OF r, of lib mg ms] scan_files_perm[of files' files lib mg ms]
    by (simp add: scan_files_count c)
qed

theorem clustering_order_independent_witness:
  "group_count (scan_files example_extractors 3 3 (rev example_files))
      (''codex'', ''shell'', ''jsonl:type=tool_call'', ''input'') = 2
   \<and> group_count (scan_files example_extractors 3 3 (rev example_files))
      (''claude'', ''unknown'', ''jsonl:toolUseResult'', ''output'') = 1
   \<and> group_keys (scan_files example_extractors 3 3 (rev example_files))
      = {(''codex'', ''shell'', ''jsonl:type=tool_call'', ''input''),
         (''claude'', ''unknown'', ''jsonl:toolUseResult'', ''output'')}"
proof -
  note T = clustering_order_independent [of example_extractors 3 3 example_files example_files]
  have a: "group_count (scan_files example_extractors 3 3 example_files)
      (''codex'', ''shell'', ''jsonl:type=tool_call'', ''input'') = 2" by code_simp
  have b: "group_count (scan_files example_extractors 3 3 example_files)
      (''claude'', ''unknown'', ''jsonl:toolUseResult'', ''output'') = 1" by code_simp
  have c: "group_keys (scan_files example_extractors 3 3 example_files)
      = {(''codex'', ''shell'', ''jsonl:type=tool_call'', ''input''),
         (''claude'', ''unknown'', ''jsonl:toolUseResult'', ''output'')}" by code_simp
  from T have k: "group_keys (scan_files example_extractors 3 3 (rev example_files))
      = group_keys (scan_files example_extractors 3 3 example_files)" by (rule conjunct1)
  from T have n: "group_count (scan_files example_extractors 3 3 (rev example_files)) key
      = group_count (scan_files example_extractors 3 3 example_files) key" for key
    by blast
  show ?thesis unfolding k n a b c by simp
qed

subsection \<open>Fingerprint of a session tree\<close>

lemma storage_root_search_None:
  "storage_root_search fs ps = None \<longleftrightarrow>
     (\<forall>parent \<in> set ps.
        \<not> (fs_exists fs (fs_child fs parent ''session'') = Inr True
           \<and> fs_exists fs (fs_child fs parent ''message'') = Inr True
           \<and> fs_exists fs (fs_child fs parent ''part'') = Inr True))"
  by (induction ps) (auto split: sum.splits bool.splits)

lemma session_partial:
  "tree_result path (add_record ''session'' obj empty_acc) 0 0 w =
     \<lparr> file = path, type_counts = [(''session'', 1)],
       type_keys = [(''session'', sorted_of_set (set (map fst obj)))],
       parse_errors = 0, message_files_parsed = 0, part_files_parsed = 0, warning = w \<rparr>"
  by (simp add: tree_result_def add_record_def empty_acc_def sorted_keys_def dict_get_def)

text \<open>
  C9, as the code has it, for a session record that parses to an object with a non-empty
  string \<open>id\<close>. The storage root is missing exactly when no parent of the session file
  is seen to hold the three directories (an \<^verbatim>\<open>OSError\<close> of a check counts as not
  seen). When the storage root is missing, the extraction returns, without raising, the
  partial fingerprint made of the type keys of the session record, with zero message and
  part counts and the warning \<open>storage_root_not_found\<close>. When the storage root is found
  and the existence check of the message directory of the session returns false, it
  returns the same partial fingerprint with the warning \<open>message_dir_not_found\<close>.
  Nothing is stated for an existence check of the message directory that raises. When the
  session file cannot be read or decoded, or the session record has no such \<open>id\<close>, the
  extraction returns without a warning.
\<close>

theorem tree_fingerprint_missing_sibling:
  "(opencode_storage_root_for_session_file fs session_path = None \<longleftrightarrow>
      (\<forall>parent \<in> set (fs_parents fs session_path).
         \<not> (fs_exists fs (fs_child fs parent ''session'') = Inr True
            \<and> fs_exists fs (fs_child fs parent ''message'') = Inr True
            \<and> fs_exists fs (fs_child fs parent ''part'') = Inr True)))
   \<and> (fs_read_json fs session_path = Some (JObj obj) \<and> str_field obj ''id'' = Some sid
        \<and> opencode_storage_root_for_session_file fs session_path = None
      \<longrightarrow> opencode_storage_session_tree_schema_fingerprint fs session_path max_messages max_parts
          = Inr \<lparr> file = fs_str fs session_path, type_counts = [(''session'', 1)],
                  type_keys = [(''session'', sorted_of_set (set (map fst obj)))],
                  parse_errors = 0, message_files_parsed = 0, part_files_parsed = 0,
                  warning = Some ''storage_root_not_found'' \<rparr>)
   \<and> (fs_read_json fs session_path = Some (JObj obj) \<and> str_field obj ''id'' = Some sid
        \<and> opencode_storage_root_for_session_file fs session_path = Some root
        \<and> fs_exists fs (fs_child fs (fs_child fs root ''message'') sid) = Inr False
      \<longrightarrow> opencode_storage_session_tree_schema_fingerprint fs session_path max_messages max_parts
          = Inr \<lparr> file = fs_str fs session_path, type_counts = [(''session'', 1)],
                  type_keys = [(''session'', sorted_of_set (set (map fst obj)))],
                  parse_errors = 0, message_files_parsed = 0, part_files_parsed = 0,
                  warning = Some ''message_dir_not_found'' \<rparr>)
   \<and> (fs_read_json fs session_path = None
      \<longrightarrow> opencode_storage_session_tree_schema_fingerprint fs session_path max_messages max_parts
          = Inr \<lparr> file = fs_str fs session_path, type_counts = [], type_keys = [],
                  parse_errors = 1, message_files_parsed = 0, part_files_parsed = 0,
                  warning = None \<rparr>)
   \<and> (fs_read_json fs session_path = Some v \<and> (\<forall>ob. v = JObj ob \<longrightarrow> str_field ob ''id'' = None)
      \<longrightarrow> (\<exists>fp. opencode_storage_session_tree_schema_fingerprint fs session_path
                   max_messages max_parts = Inr fp
                \<and> warning fp = None \<and> message_files_parsed fp = 0
                \<and> part_files_parsed fp = 0))"
proof (intro conjI impI)
  show "opencode_storage_root_for_session_file fs session_path = None \<longleftrightarrow>
      (\<forall>parent \<in> set (fs_parents fs session_path).
         \<not> (fs_exists fs (fs_child fs parent ''session'') = Inr True
            \<and> fs_exists fs (fs_child fs parent ''message'') = Inr True
            \<and> fs_exists fs (fs_child fs parent ''part'') = Inr True))"
    unfolding opencode_storage_root_for_session_file_def by (rule storage_root_search_None)
next
  assume "fs_read_json fs session_path = Some (JObj obj) \<and> str_field obj ''id'' = Some sid
        \<and> opencode_storage_root_for_session_file fs session_path = None"
  then show "opencode_storage_session_tree_schema_fingerprint fs session_path max_messages max_parts
          = Inr \<lparr> file = fs_str fs session_path, type_counts = [(''session'', 1)],
                  type_keys = [(''session'', sorted_of_set (set (map fst obj)))],
                  parse_errors = 0, message_files_parsed = 0, part_files_parsed = 0,
                  warning = Some ''storage_root_not_found'' \<rparr>"
    by (simp add: opencode_storage_session_tree_schema_fingerprint_def session_partial)
next
  assume "fs_read_json fs session_path = Some (JObj obj) \<and> str_field obj ''id'' = Some sid
        \<and> opencode_storage_root_for_session_file fs session_path = Some root
        \<and> fs_exists fs (fs_child fs (fs_child fs root ''message'') sid) = Inr False"
  then show "opencode_storage_session_tree_schema_fingerprint fs session_path max_messages max_parts
          = Inr \<lparr> file = fs_str fs session_path, type_counts = [(''session'', 1)],
                  type_keys = [(''session'', sorted_of_set (set (map fst obj)))],
                  parse_errors = 0, message_files_parsed = 0, part_files_parsed = 0,
                  warning = Some ''message_dir_not_found'' \<rparr>"
    by (simp add: opencode_storage_session_tree_schema_fingerprint_def session_partial)
next
  assume "fs_read_json fs session_path = None"
  then show "opencode_storage_session_tree_schema_fingerprint fs session_path max_messages max_parts
          = Inr \<lparr> file = fs_str fs session_path, type_counts = [], type_keys = [],
                  parse_errors = 1, message_files_parsed = 0, part_files_parsed = 0,
                  warning = None \<rparr>"
    by (simp add: opencode_storage_session_tree_schema_fingerprint_def)
next
  assume h: "fs_read_json fs session_path = Some v \<and> (\<forall>ob. v = JObj ob \<longrightarrow> str_field ob ''id'' = None)"
  then show "\<exists>fp. opencode_storage_session_tree_schema_fingerprint fs session_path
                   max_messages max_parts = Inr fp
                \<and> warning fp = None \<and> message_files_parsed fp = 0
                \<and> part_files_parsed fp = 0"
    by (cases v) (simp_all add: opencode_storage_session_tree_schema_fingerprint_def tree_result_def Let_def)
qed

text \<open>
  C9 as stated fails: for a session record without an \<open>id\<close> in a tree without storage
  root, the returned fingerprint has no warning.
\<close>

theorem tree_fingerprint_warning_counterexample:
  "opencode_storage_root_for_session_file
      (example_fs [] [([''s'', ''ses_1.json''], JObj [(''title'', JStr ''t'')])])
      [''s'', ''ses_1.json''] = None
   \<and> opencode_storage_session_tree_schema_fingerprint
      (example_fs [] [([''s'', ''ses_1.json''], JObj [(''title'', JStr ''t'')])])
      [''s'', ''ses_1.json''] 250 2500
     = Inr \<lparr> file = ''/s/ses_1.json'', type_counts = [(''session'', 1)],
             type_keys = [(''session'', [''title''])], parse_errors = 0,
             message_files_parsed = 0, part_files_parsed = 0, warning = None \<rparr>"
  by code_simp

theorem tree_fingerprint_missing_sibling_witness:
  "opencode_storage_session_tree_schema_fingerprint
      (example_fs []
         [([''s'', ''ses_1.json''], JObj [(''id'', JStr ''ses_1''), (''title'', JStr ''t'')])])
      [''s'', ''ses_1.json''] 250 2500
     = Inr \<lparr> file = ''/s/ses_1.json'', type_counts = [(''session'', 1)],
             type_keys = [(''session'', [''id'', ''title''])], parse_errors = 0,
             message_files_parsed = 0, part_files_parsed = 0,
             warning = Some ''storage_root_not_found'' \<rparr>
   \<and> opencode_storage_session_tree_schema_fingerprint
      (example_fs [[''st'', ''session''], [''st'', ''message''], [''st'', ''part'']]
         [([''st'', ''session'', ''p'', ''ses_1.json''],
           JObj [(''id'', JStr ''ses_1''), (''title'', JStr ''t'')])])
      [''st'', ''session'', ''p'', ''ses_1.json''] 250 2500
     = Inr \<lparr> file = ''/st/session/p/ses_1.json'', type_counts = [(''session'', 1)],
             type_keys = [(''session'', [''id'', ''title''])], parse_errors = 0,
             message_files_parsed = 0, part_files_parsed = 0,
             warning = Some ''message_dir_not_found'' \<rparr>"
proof -
  let ?obj = "[(''id'', JStr ''ses_1''), (''title'', JStr ''t'')]"
  let ?p1 = "[''s'', ''ses_1.json'']"
  let ?fs1 = "example_fs [] [(?p1, JObj ?obj)]"
  let ?p2 = "[''st'', ''session'', ''p'', ''ses_1.json'']"
  let ?fs2 = "example_fs [[''st'', ''session''], [''st'', ''message''], [''st'', ''part'']]
                [(?p2, JObj ?obj)]"
  have keys: "sorted_of_set (set (map fst ?obj)) = [''id'', ''title'']" by code_simp
  have s1: "fs_str ?fs1 ?p1 = ''/s/ses_1.json''" by code_simp
  have s2: "fs_str ?fs2 ?p2 = ''/st/session/p/ses_1.json''" by code_simp
  have pre1: "fs_read_json ?fs1 ?p1 = Some (JObj ?obj) \<and> str_field ?obj ''id'' = Some ''ses_1''
        \<and> opencode_storage_root_for_session_file ?fs1 ?p1 = None"
    by code_simp
  have pre2: "fs_read_json ?fs2 ?p2 = Some (JObj ?obj) \<and> str_field ?obj ''id'' = Some ''ses_1''
        \<and> opencode_storage_root_for_session_file ?fs2 ?p2 = Some [''st'']
        \<and> fs_exists ?fs2 (fs_child ?fs2 (fs_child ?fs2 [''st''] ''message'') ''ses_1'') = Inr False"
    by code_simp
  note T1 = tree_fingerprint_missing_sibling
    [where fs = ?fs1 and session_path = ?p1 and obj = ?obj and sid = "''ses_1''"
       and max_messages = 250 and max_parts = 2500,
     THEN conjunct2, THEN conjunct1, THEN mp, OF pre1]
  note T2 = tree_fingerprint_missing_sibling
    [where fs = ?fs2 and session_path = ?p2 and obj = ?obj and sid = "''ses_1''"
       and root = "[''st'']" and max_messages = 250 and max_parts = 2500,
     THEN conjunct2, THEN conjunct2, THEN conjunct1, THEN mp, OF pre2]
  show ?thesis
    using T1 T2 unfolding keys s1 s2 by (rule conjI)
qed

end
